theory Spec2Isabelle
  imports Complex_Main "HOL-Library.Word" "HOL-Library.Signed_Division"
begin

section \<open>Data model\<close>

text \<open>
  An instant (Go's \<^verbatim>\<open>time.Time\<close>) is the number of nanoseconds elapsed since the zero
  value of \<^verbatim>\<open>time.Time\<close>; the zero value itself is \<open>0\<close>. Instants are unbounded, a
  \<^verbatim>\<open>time.Duration\<close> is a 64-bit count of nanoseconds.
\<close>

type_synonym time = int

text \<open>
  \<^verbatim>\<open>monitor.PingResult\<close>. The field \<^verbatim>\<open>Timestamp\<close> of a ping result is named
  \<open>PingTimestamp\<close> here, because the log entry has a field \<open>Timestamp\<close> of its own.
\<close>

record PingResult =
  Host :: string
  Success :: bool
  Latency :: "64 word"
  Error :: string
  PingTimestamp :: time

text \<open>
  \<^verbatim>\<open>storage.LogEntry\<close>: one timestamp and the ordered results of one sampling tick.
\<close>

record LogEntry =
  Timestamp :: time
  Results :: "PingResult list"

text \<open>
  \<^verbatim>\<open>DowntimeEvent\<close>: the pointer \<^verbatim>\<open>EndTime\<close> is an option (\<open>None\<close> for \<^verbatim>\<open>nil\<close>). A
  \<^verbatim>\<open>nil\<close> slice and an empty slice are both the empty list.
\<close>

record DowntimeEvent =
  StartTime :: time
  EndTime :: "time option"
  Duration :: int
  IsOngoing :: bool
  FailedHosts :: "string list"

text \<open>
  \<^verbatim>\<open>Stats\<close>. A \<^verbatim>\<open>float64\<close> field holds a real number that is a binary64 value.
\<close>

record Stats =
  CurrentStatus :: string
  TotalChecks :: int
  OnlineChecks :: int
  OfflineChecks :: int
  UptimePercentage :: real
  TotalDowntimeHours :: real
  DowntimeEvents :: "DowntimeEvent list"
  RecentDowntime :: "DowntimeEvent option"
  TimeSinceLastCheck :: "time option"

section \<open>Binary64 arithmetic\<close>

text \<open>
  Go's \<^verbatim>\<open>float64\<close> is the binary64 format of IEEE 754: a significand of 53 bits, and
  every conversion and arithmetic operation returns the binary64 value nearest to the
  exact result, the one with an even significand when two are equally near. A
  \<^verbatim>\<open>float64\<close> is modelled by the real number it denotes, and an operation by the exact
  operation followed by \<open>round64\<close>. The exponent of binary64 is bounded; \<open>round64\<close>
  leaves the bound out, because every nonzero value \<^verbatim>\<open>calculateStats\<close> computes in
  \<^verbatim>\<open>float64\<close> has a magnitude between \<open>2 powi (- 63)\<close> and \<open>2 ^ 63\<close>, far inside the
  range of the normal binary64 numbers: it is a 64-bit integer, a quotient of a 64-bit
  integer by \<open>10\<^sup>9\<close>, by \<open>3600\<close> or by a positive 64-bit integer, the sum of two such
  values, or a quotient of at most \<open>1\<close> times \<open>100\<close>.
\<close>

text \<open>The number of binary digits of a natural number.\<close>

fun bitlength :: "nat \<Rightarrow> nat" where
  "bitlength n = (if n = 0 then 0 else Suc (bitlength (n div 2)))"

declare bitlength.simps [simp del]

text \<open>
  The binary exponent of a nonzero real \<open>x\<close>: the integer \<open>e\<close> with
  \<open>2\<^sup>e \<le> \<bar>x\<bar> < 2\<^sup>e\<^sup>+\<^sup>1\<close> (lemma \<open>expo_bounds\<close>).
\<close>

definition expo :: "real \<Rightarrow> int" where
  "expo x =
     (if 1 \<le> \<bar>x\<bar> then int (bitlength (nat \<lfloor>\<bar>x\<bar>\<rfloor>)) - 1
      else - int (bitlength (nat (\<lceil>1 / \<bar>x\<bar>\<rceil> - 1))))"

text \<open>The nearest integer, the even one of two equally near.\<close>

definition roundEven :: "real \<Rightarrow> int" where
  "roundEven y =
     (let f = \<lfloor>y\<rfloor>; r = y - of_int f
      in if r < 1 / 2 then f
         else if 1 / 2 < r then f + 1
         else if even f then f
         else f + 1)"

text \<open>
  The nearest binary64 value: the nearest multiple of the quantum \<open>2\<^sup>e\<^sup>-\<^sup>5\<^sup>2\<close>, where \<open>e\<close> is
  the binary exponent.
\<close>

definition round64 :: "real \<Rightarrow> real" where
  "round64 x =
     (if x = 0 then 0
      else (let q = 2 powi (expo x - 52) in of_int (roundEven (x / q)) * q))"

text \<open>The conversion \<^verbatim>\<open>float64(k)\<close> of an integer.\<close>

definition float64 :: "int \<Rightarrow> real" where
  "float64 k = round64 (of_int k)"

section \<open>Durations\<close>

definition minDuration :: int where
  "minDuration = - (2 ^ 63)"

definition maxDuration :: int where
  "maxDuration = 2 ^ 63 - 1"

definition Second :: int where
  "Second = 1000000000"

text \<open>\<^verbatim>\<open>t.Sub(u)\<close>: the difference in nanoseconds, saturating at the ends of the range.\<close>

definition Sub :: "time \<Rightarrow> time \<Rightarrow> int" where
  "Sub t u =
     (let d = t - u
      in if minDuration \<le> d \<and> d \<le> maxDuration then d
         else if t < u then minDuration
         else maxDuration)"

text \<open>
  \<^verbatim>\<open>d.Seconds()\<close>, in the standard library
  \<^verbatim>\<open>sec := d / Second; nsec := d % Second; return float64(sec) + float64(nsec)/1e9\<close>,
  with Go's truncating division and remainder on integers and the division and the
  sum in \<^verbatim>\<open>float64\<close>.
\<close>

definition Seconds :: "int \<Rightarrow> real" where
  "Seconds d =
     (let sec = d sdiv Second; nsec = d smod Second
      in round64 (float64 sec + round64 (float64 nsec / 1000000000)))"

text \<open>The conversion \<^verbatim>\<open>int64(x)\<close> of a float: the fraction is dropped, towards zero.\<close>

definition int64_of_float :: "real \<Rightarrow> int" where
  "int64_of_float x = (if 0 \<le> x then \<lfloor>x\<rfloor> else \<lceil>x\<rceil>)"

text \<open>\<^verbatim>\<open>int64(t.Sub(u).Seconds())\<close>, the expression behind every \<^verbatim>\<open>Duration\<close> field.\<close>

definition durationSeconds :: "time \<Rightarrow> time \<Rightarrow> int" where
  "durationSeconds t u = int64_of_float (Seconds (Sub t u))"

section \<open>The loop of calculateStats\<close>

text \<open>The local variables of \<^verbatim>\<open>calculateStats\<close> that the loop over the log entries updates.\<close>

record LoopState =
  downtimeEvents :: "DowntimeEvent list"
  onlineChecks :: int
  offlineChecks :: int
  totalDowntimeSeconds :: "64 word"
  lastStatus :: bool
  downtimeStart :: time
  downtimeFailedHosts :: "string list"
  lastCheckTime :: "time option"
  currentStatus :: string
  statusInitialized :: bool

text \<open>The declarations before the loop: zero values, and \<^verbatim>\<open>currentStatus := "online"\<close>.\<close>

definition initState :: LoopState where
  "initState =
     \<lparr>downtimeEvents = [], onlineChecks = 0, offlineChecks = 0, totalDowntimeSeconds = 0,
      lastStatus = False, downtimeStart = 0, downtimeFailedHosts = [], lastCheckTime = None,
      currentStatus = ''online'', statusInitialized = False\<rparr>"

text \<open>
  The inner loop over \<^verbatim>\<open>entry.Results\<close>. Its state is the pair
  \<open>(allFailed, failedHosts)\<close>, which starts as \<open>(True, [])\<close>.
\<close>

definition resultStep :: "PingResult \<Rightarrow> bool \<times> string list \<Rightarrow> bool \<times> string list" where
  "resultStep result acc =
     (if Success result then (False, snd acc)
      else (fst acc, snd acc @ [Host result]))"

definition scanResults :: "PingResult list \<Rightarrow> bool \<times> string list" where
  "scanResults results = fold resultStep results (True, [])"

text \<open>The branch \<^verbatim>\<open>if internetOnline\<close> of the loop body.\<close>

definition onlineBranch :: "LogEntry \<Rightarrow> LoopState \<Rightarrow> LoopState" where
  "onlineBranch entry s =
     (let s1 = s\<lparr>onlineChecks := onlineChecks s + 1\<rparr>;
          s2 = (if statusInitialized s1 \<and> \<not> lastStatus s1 then
                  (let endTime = Timestamp entry;
                       duration = durationSeconds endTime (downtimeStart s1);
                       downEvent = \<lparr>StartTime = downtimeStart s1, EndTime = Some endTime,
                                    Duration = duration, IsOngoing = False,
                                    FailedHosts = downtimeFailedHosts s1\<rparr>
                   in s1\<lparr>totalDowntimeSeconds := totalDowntimeSeconds s1 + word_of_int duration,
                         downtimeEvents := downtimeEvents s1 @ [downEvent]\<rparr>)
                else s1)
      in s2\<lparr>lastStatus := True, currentStatus := ''online''\<rparr>)"

text \<open>The \<^verbatim>\<open>else\<close> branch of the loop body.\<close>

definition offlineBranch :: "LogEntry \<Rightarrow> string list \<Rightarrow> LoopState \<Rightarrow> LoopState" where
  "offlineBranch entry failedHosts s =
     (let s1 = s\<lparr>offlineChecks := offlineChecks s + 1\<rparr>;
          s2 = (if \<not> statusInitialized s1 \<or> lastStatus s1 then
                  s1\<lparr>downtimeStart := Timestamp entry, downtimeFailedHosts := failedHosts\<rparr>
                else s1)
      in s2\<lparr>lastStatus := False, currentStatus := ''offline''\<rparr>)"

text \<open>One iteration of \<^verbatim>\<open>for _, entry := range logs\<close>.\<close>

definition entryStep :: "LogEntry \<Rightarrow> LoopState \<Rightarrow> LoopState" where
  "entryStep entry s =
     (let (allFailed, failedHosts) = scanResults (Results entry);
          internetOnline = \<not> allFailed;
          s1 = s\<lparr>lastCheckTime := Some (Timestamp entry)\<rparr>;
          s2 = (if internetOnline then onlineBranch entry s1
                else offlineBranch entry failedHosts s1)
      in s2\<lparr>statusInitialized := True\<rparr>)"

text \<open>
  The two values the loop body reads after the inner loop, as functions of the entry: the verdict
  \<^verbatim>\<open>internetOnline := !allFailed\<close> and the slice \<^verbatim>\<open>failedHosts\<close>.
\<close>

definition internetOnline :: "LogEntry \<Rightarrow> bool" where
  "internetOnline entry = (\<not> fst (scanResults (Results entry)))"

definition failedHosts :: "LogEntry \<Rightarrow> string list" where
  "failedHosts entry = snd (scanResults (Results entry))"

definition runLoop :: "LogEntry list \<Rightarrow> LoopState" where
  "runLoop logs = fold entryStep logs initState"

text \<open>
  The block after the loop, \<^verbatim>\<open>// Handle ongoing downtime\<close>. The instant \<open>now\<close> is what
  \<^verbatim>\<open>time.Now()\<close> returns inside \<^verbatim>\<open>time.Since\<close>.
\<close>

definition handleOngoing :: "time \<Rightarrow> LoopState \<Rightarrow> LoopState" where
  "handleOngoing now s =
     (if statusInitialized s \<and> \<not> lastStatus s \<and> lastCheckTime s \<noteq> None then
        (let duration = durationSeconds now (downtimeStart s);
             downEvent = \<lparr>StartTime = downtimeStart s, EndTime = None, Duration = duration,
                          IsOngoing = True, FailedHosts = downtimeFailedHosts s\<rparr>
         in s\<lparr>downtimeEvents := downtimeEvents s @ [downEvent],
               totalDowntimeSeconds := totalDowntimeSeconds s + word_of_int duration\<rparr>)
      else s)"

text \<open>
  The loop that reverses \<^verbatim>\<open>downtimeEvents\<close> in place: while \<open>i < len / 2\<close>, exchange the
  elements at \<open>i\<close> and \<open>len - 1 - i\<close>.
\<close>

function reverseLoop :: "nat \<Rightarrow> 'a list \<Rightarrow> 'a list" where
  "reverseLoop i xs =
     (if i < length xs div 2 then
        (let j = length xs - 1 - i
         in reverseLoop (i + 1) (xs[i := xs ! j, j := xs ! i]))
      else xs)"
  by pat_completeness auto
termination
  by (relation "measure (\<lambda>(i, xs). length xs div 2 - i)") auto

declare reverseLoop.simps [simp del]

section \<open>calculateStats\<close>

definition calculateStats :: "time \<Rightarrow> LogEntry list \<Rightarrow> Stats" where
  "calculateStats now logs =
     (let s = handleOngoing now (runLoop logs);
          totalChecks = int (length logs);
          uptimePercentage =
            (if totalChecks > 0 then
               round64 (round64 (float64 (onlineChecks s) / float64 totalChecks) * 100)
             else 0);
          events = reverseLoop 0 (downtimeEvents s);
          recentDowntime = (if length events > 0 then Some (events ! 0) else None)
      in \<lparr>CurrentStatus = currentStatus s,
          TotalChecks = totalChecks,
          OnlineChecks = onlineChecks s,
          OfflineChecks = offlineChecks s,
          UptimePercentage = uptimePercentage,
          TotalDowntimeHours = round64 (float64 (sint (totalDowntimeSeconds s)) / 3600),
          DowntimeEvents = events,
          RecentDowntime = recentDowntime,
          TimeSinceLastCheck = lastCheckTime s\<rparr>)"

section \<open>Basic facts\<close>

subsection \<open>The binary exponent\<close>

lemma bitlength_0: "bitlength 0 = 0"
  by (simp add: bitlength.simps)

lemma bitlength_pos: "0 < n \<Longrightarrow> bitlength n = Suc (bitlength (n div 2))"
  by (subst bitlength.simps) simp

lemma bitlength_bounds: "0 < n \<Longrightarrow> 2 ^ (bitlength n - 1) \<le> n \<and> n < 2 ^ bitlength n"
proof (induction n rule: bitlength.induct)
  case (1 n)
  show ?case
  proof (cases "n div 2 = 0")
    case True
    with "1.prems" have "n = 1" by (simp add: div_eq_0_iff) 
    then show ?thesis by (simp add: bitlength_pos bitlength_0)
  next
    case False
    let ?b = "bitlength (n div 2)"
    from False "1.prems" have IH: "2 ^ (?b - 1) \<le> n div 2" "n div 2 < 2 ^ ?b"
      using "1.IH" by simp_all
    have b: "0 < ?b" using False by (simp add: bitlength_pos)
    then have "(2::nat) ^ ?b = 2 * 2 ^ (?b - 1)"
      by (cases ?b) simp_all
    with IH(1) have lo: "2 ^ ?b \<le> n" by linarith
    from IH(2) have "n < 2 * 2 ^ ?b" by linarith
    with lo show ?thesis
      using "1.prems" by (simp add: bitlength_pos)
  qed
qed

lemma pow_bounds_real:
  assumes "0 < n"
  shows "(2::real) ^ (bitlength n - 1) \<le> real n" and "real n + 1 \<le> 2 ^ bitlength n"
proof -
  from bitlength_bounds [OF assms]
  have "2 ^ (bitlength n - 1) \<le> n" and "Suc n \<le> 2 ^ bitlength n"
    by simp_all
  then have "real (2 ^ (bitlength n - 1)) \<le> real n" and "real (Suc n) \<le> real (2 ^ bitlength n)"
    by (simp_all only: of_nat_le_iff)
  then show "(2::real) ^ (bitlength n - 1) \<le> real n" and "real n + 1 \<le> 2 ^ bitlength n"
    by simp_all
qed

lemma expo_bounds:
  assumes "x \<noteq> 0"
  shows "2 powi expo x \<le> \<bar>x\<bar>" and "\<bar>x\<bar> < 2 powi (expo x + 1)"
proof -
  define a where "a = \<bar>x\<bar>"
  have "2 powi expo x \<le> a \<and> a < 2 powi (expo x + 1)"
  proof (cases "1 \<le> a")
    case True
    define n where "n = nat \<lfloor>a\<rfloor>"
    define b where "b = bitlength n"
    have n: "0 < n" using True by (simp add: n_def)
    have b: "0 < b" using n by (simp add: b_def bitlength_pos)
    have e: "expo x = int b - 1"
      using True by (simp add: expo_def a_def n_def b_def)
    have "real n \<le> a" and "a < real n + 1"
      using True by (simp_all add: n_def)
    moreover note pow_bounds_real [OF n, folded b_def]
    moreover have "2 powi (int b - 1) = (2::real) ^ (b - 1)"
      using b by (simp add: power_int_def nat_diff_distrib')
    moreover have "2 powi (int b - 1 + 1) = (2::real) ^ b"
      by simp
    ultimately show ?thesis
      unfolding e by linarith
  next
    case False
    then have a: "0 < a" "a < 1" using assms by (simp_all add: a_def)
    define c where "c = \<lceil>1 / a\<rceil>"
    define n where "n = nat (c - 1)"
    define m where "m = bitlength n"
    have inv: "1 < 1 / a" using a by simp
    have c: "2 \<le> c" unfolding c_def using inv by linarith
    then have n: "0 < n" by (simp add: n_def)
    have m: "0 < m" using n by (simp add: m_def bitlength_pos)
    have e: "expo x = - int m"
      using False by (simp add: expo_def a_def c_def n_def m_def)
    have n_eq: "real n = of_int c - 1" using c by (simp add: n_def)
    have lo: "real n < 1 / a" unfolding n_eq c_def by linarith
    have hi: "1 / a \<le> real n + 1" unfolding n_eq c_def by simp
    note pb = pow_bounds_real [OF n, folded m_def]
    from pb(1) lo have "2 ^ (m - 1) < 1 / a" by linarith
    then have up: "a < 1 / 2 ^ (m - 1)"
      using a(1) by (simp add: field_simps)
    from pb(2) hi have "1 / a \<le> 2 ^ m" by linarith
    then have down: "1 / 2 ^ m \<le> a"
      using a(1) by (simp add: field_simps)
    have p1: "2 powi (- int m) = 1 / (2::real) ^ m"
      by (simp add: power_int_minus_divide)
    have p2: "2 powi (- int m + 1) = 1 / (2::real) ^ (m - 1)"
    proof -
      have "- int m + 1 = - int (m - 1)" using m by simp
      then show ?thesis by (simp only: power_int_minus_divide power_int_of_nat)
    qed
    show ?thesis
      unfolding e p1 p2 using up down by simp
  qed
  then show "2 powi expo x \<le> \<bar>x\<bar>" and "\<bar>x\<bar> < 2 powi (expo x + 1)"
    by (simp_all add: a_def)
qed

lemma pow2_less_imp_less:
  assumes "(2::real) powi m < 2 powi n"
  shows "m < n"
proof (rule ccontr)
  assume "\<not> m < n"
  then have "n \<le> m" by simp
  then have "(2::real) powi n \<le> 2 powi m"
    by (rule power_int_increasing) simp
  with assms show False by simp
qed

lemma expo_unique:
  assumes "2 powi e \<le> \<bar>x\<bar>" and "\<bar>x\<bar> < 2 powi (e + 1)"
  shows "expo x = e"
proof -
  have "(0::real) < 2 powi e" by simp
  with assms(1) have "0 < \<bar>x\<bar>" by linarith
  then have x: "x \<noteq> 0" by simp
  note b = expo_bounds [OF x]
  have "(2::real) powi e < 2 powi (expo x + 1)"
    using assms(1) b(2) by linarith
  then have "e < expo x + 1"
    by (rule pow2_less_imp_less)
  moreover have "(2::real) powi expo x < 2 powi (e + 1)"
    using assms(2) b(1) by linarith
  then have "expo x < e + 1"
    by (rule pow2_less_imp_less)
  ultimately show ?thesis by simp
qed

lemma expo_less:
  assumes "x \<noteq> 0" and "\<bar>x\<bar> < 2 powi k"
  shows "expo x < k"
proof -
  have "(2::real) powi expo x < 2 powi k"
    using expo_bounds(1) [OF assms(1)] assms(2) by linarith
  then show ?thesis by (rule pow2_less_imp_less)
qed

subsection \<open>Rounding to the nearest integer, ties to even\<close>

lemma roundEven_cases: "roundEven y = \<lfloor>y\<rfloor> \<or> roundEven y = \<lfloor>y\<rfloor> + 1"
  by (simp add: roundEven_def Let_def)

lemma roundEven_of_int [simp]: "roundEven (of_int m) = m"
  by (simp add: roundEven_def)

lemma roundEven_ge_int:
  assumes "of_int m \<le> y"
  shows "m \<le> roundEven y"
proof -
  from assms have "m \<le> \<lfloor>y\<rfloor>" by (simp add: le_floor_iff)
  then show ?thesis
    using roundEven_cases [of y] by auto
qed

lemma roundEven_le_int:
  assumes "y \<le> of_int m"
  shows "roundEven y \<le> m"
proof (cases "y = of_int m")
  case True
  then show ?thesis by simp
next
  case False
  with assms have "y < of_int m" by simp
  then have "\<lfloor>y\<rfloor> < m" by (simp add: floor_less_iff)
  then show ?thesis
    using roundEven_cases [of y] by auto
qed

lemma roundEven_error: "\<bar>of_int (roundEven y) - y\<bar> \<le> 1 / 2"
proof -
  have "of_int \<lfloor>y\<rfloor> \<le> y" "y < of_int \<lfloor>y\<rfloor> + 1"
    by linarith+
  then show ?thesis
    by (auto simp: roundEven_def Let_def abs_le_iff)
qed

lemma roundEven_mono:
  assumes "y \<le> z"
  shows "roundEven y \<le> roundEven z"
proof (cases "\<lfloor>y\<rfloor> = \<lfloor>z\<rfloor>")
  case True
  with assms show ?thesis
    by (auto simp: roundEven_def Let_def)
next
  case False
  with assms have "\<lfloor>y\<rfloor> < \<lfloor>z\<rfloor>"
    using floor_mono [OF assms] by simp
  then have "roundEven y \<le> \<lfloor>z\<rfloor>"
    using roundEven_cases [of y] by auto
  also have "\<dots> \<le> roundEven z"
    using roundEven_cases [of z] by auto
  finally show ?thesis .
qed


subsection \<open>Rounding to binary64\<close>

lemma round64_0 [simp]: "round64 0 = 0"
  by (simp add: round64_def)

lemma round64_nonzero:
  "x \<noteq> 0 \<Longrightarrow>
   round64 x = of_int (roundEven (x / 2 powi (expo x - 52))) * 2 powi (expo x - 52)"
  by (simp add: round64_def Let_def)

lemma round64_grid_le:
  assumes "x \<le> of_int m * 2 powi (expo x - 52)"
  shows "round64 x \<le> of_int m * 2 powi (expo x - 52)"
proof (cases "x = 0")
  case True
  with assms show ?thesis by simp
next
  case False
  define q :: real where "q = 2 powi (expo x - 52)"
  have q: "0 < q" by (simp add: q_def)
  from assms have "x / q \<le> of_int m"
    using q by (simp add: q_def [symmetric] field_simps)
  then have "roundEven (x / q) \<le> m"
    by (rule roundEven_le_int)
  then have "real_of_int (roundEven (x / q)) * q \<le> of_int m * q"
    using q by simp
  then show ?thesis
    using False by (simp add: round64_nonzero q_def)
qed

lemma round64_grid_ge:
  assumes "of_int m * 2 powi (expo x - 52) \<le> x"
  shows "of_int m * 2 powi (expo x - 52) \<le> round64 x"
proof (cases "x = 0")
  case True
  with assms show ?thesis by simp
next
  case False
  define q :: real where "q = 2 powi (expo x - 52)"
  have q: "0 < q" by (simp add: q_def)
  from assms have "of_int m \<le> x / q"
    using q by (simp add: q_def [symmetric] field_simps)
  then have "m \<le> roundEven (x / q)"
    by (rule roundEven_ge_int)
  then have "of_int m * q \<le> real_of_int (roundEven (x / q)) * q"
    using q by simp
  then show ?thesis
    using False by (simp add: round64_nonzero q_def)
qed

text \<open>A whole multiple of a power of two at or above the quantum is on the grid.\<close>

lemma on_grid:
  assumes "expo x - 52 \<le> j"
  shows "\<exists>m. of_int k * 2 powi j = real_of_int m * 2 powi (expo x - 52)"
proof -
  define d where "d = nat (j - (expo x - 52))"
  have j: "j = (expo x - 52) + int d"
    using assms by (simp add: d_def)
  have "(2::real) powi j = 2 powi (expo x - 52) * 2 ^ d"
    unfolding j by (simp add: power_int_add)
  then have "of_int k * 2 powi j = real_of_int (k * 2 ^ d) * 2 powi (expo x - 52)"
    by simp
  then show ?thesis ..
qed

lemma round64_le_multiple:
  assumes "x \<le> of_int k * 2 powi j" and "expo x - 52 \<le> j"
  shows "round64 x \<le> of_int k * 2 powi j"
proof -
  from on_grid [OF assms(2), of k] obtain m
    where m: "of_int k * 2 powi j = real_of_int m * 2 powi (expo x - 52)" ..
  show ?thesis
    using round64_grid_le [of x m] assms(1) unfolding m by simp
qed

lemma round64_ge_multiple:
  assumes "of_int k * 2 powi j \<le> x" and "expo x - 52 \<le> j"
  shows "of_int k * 2 powi j \<le> round64 x"
proof -
  from on_grid [OF assms(2), of k] obtain m
    where m: "of_int k * 2 powi j = real_of_int m * 2 powi (expo x - 52)" ..
  show ?thesis
    using round64_grid_ge [of m x] assms(1) unfolding m by simp
qed

lemma expo_le_52:
  assumes "\<bar>x\<bar> < 2 ^ 53"
  shows "expo x - 52 \<le> 0"
proof (cases "x = 0")
  case True
  then show ?thesis by (simp add: expo_def bitlength_0)
next
  case False
  have "\<bar>x\<bar> < 2 powi 53" using assms by simp
  from expo_less [OF False this] show ?thesis by simp
qed

lemma round64_le_int:
  assumes "x \<le> of_int k" and "\<bar>x\<bar> < 2 ^ 53"
  shows "round64 x \<le> of_int k"
  using round64_le_multiple [of x k 0] assms expo_le_52 [of x] by simp

lemma round64_ge_int:
  assumes "of_int k \<le> x" and "\<bar>x\<bar> < 2 ^ 53"
  shows "of_int k \<le> round64 x"
  using round64_ge_multiple [of k 0 x] assms expo_le_52 [of x] by simp

lemma round64_nonneg: "0 \<le> x \<Longrightarrow> 0 \<le> round64 x"
  using round64_grid_ge [of 0 x] by simp

lemma round64_error:
  assumes "x \<noteq> 0"
  shows "\<bar>round64 x - x\<bar> \<le> 2 powi (expo x - 53)"
proof -
  define q :: real where "q = 2 powi (expo x - 52)"
  have q: "0 < q" by (simp add: q_def)
  have "round64 x - x = (of_int (roundEven (x / q)) - x / q) * q"
    using assms q by (simp add: round64_nonzero q_def [symmetric] field_simps)
  then have "\<bar>round64 x - x\<bar> = \<bar>of_int (roundEven (x / q)) - x / q\<bar> * q"
    using q by (simp add: abs_mult)
  also have "\<dots> \<le> 1 / 2 * q"
    using roundEven_error [of "x / q"] q by (intro mult_right_mono) simp_all
  also have "1 / 2 * q = 2 powi (expo x - 53)"
  proof -
    have "(2::real) powi ((expo x - 53) + 1) = 2 powi (expo x - 53) * 2 powi 1"
      by (rule power_int_add) simp
    then have "q = 2 powi (expo x - 53) * 2"
      by (simp add: q_def)
    then show ?thesis by simp
  qed
  finally show ?thesis .
qed

lemma round64_error_below:
  assumes "\<bar>x\<bar> < 2 powi k"
  shows "\<bar>round64 x - x\<bar> \<le> 2 powi (k - 54)"
proof (cases "x = 0")
  case True
  then show ?thesis by simp
next
  case False
  from expo_less [OF False assms] have "expo x - 53 \<le> k - 54" by simp
  then have "(2::real) powi (expo x - 53) \<le> 2 powi (k - 54)"
    by (rule power_int_increasing) simp
  with round64_error [OF False] show ?thesis by linarith
qed

text \<open>Integers of at most 53 bits are binary64 values.\<close>

lemma round64_of_int:
  assumes "\<bar>k\<bar> \<le> 2 ^ 53"
  shows "round64 (of_int k) = of_int k"
proof -
  have "round64 (of_int k) \<le> of_int k \<and> of_int k \<le> round64 (of_int k)"
  proof (cases "\<bar>k\<bar> = 2 ^ 53")
    case True
    then have "\<bar>real_of_int k\<bar> = 2 powi 53"
      by (metis of_int_abs of_int_numeral of_int_power power_int_numeral)
    then have "expo (of_int k) = 53"
      by (intro expo_unique) simp_all
    moreover have "even k"
      using True by (metis even_abs_add_iff even_add even_numeral even_power zero_less_numeral)
    then obtain h where "k = 2 * h" ..
    then have "real_of_int k = of_int h * 2 powi 1" by simp
    ultimately show ?thesis
      using round64_le_multiple [of "of_int k" h 1] round64_ge_multiple [of h 1 "of_int k"]
      by simp
  next
    case False
    with assms have "\<bar>k\<bar> < 2 ^ 53" by simp
    then have "\<bar>real_of_int k\<bar> < 2 ^ 53"
      by (metis of_int_abs of_int_less_numeral_power_cancel_iff)
    then show ?thesis
      using round64_le_int [of "of_int k" k] round64_ge_int [of k "of_int k"] by simp
  qed
  then show ?thesis by simp
qed

lemma expo_mono:
  assumes "0 < x" and "x \<le> y"
  shows "expo x \<le> expo y"
proof -
  have "x \<noteq> 0" "y \<noteq> 0" using assms by simp_all
  then have "2 powi expo x \<le> \<bar>x\<bar>" "\<bar>y\<bar> < 2 powi (expo y + 1)"
    by (simp_all add: expo_bounds)
  then have "(2::real) powi expo x < 2 powi (expo y + 1)"
    using assms by linarith
  then have "expo x < expo y + 1" by (rule pow2_less_imp_less)
  then show ?thesis by simp
qed

lemma round64_mono:
  assumes "0 \<le> x" and "x \<le> y"
  shows "round64 x \<le> round64 y"
proof (cases "x = 0")
  case True
  with assms show ?thesis by (simp add: round64_nonneg)
next
  case False
  with assms have x: "0 < x" and y: "0 < y" by simp_all
  have le: "expo x \<le> expo y" using x assms(2) by (rule expo_mono)
  show ?thesis
  proof (cases "expo x = expo y")
    case True
    define q :: real where "q = 2 powi (expo x - 52)"
    have q: "0 < q" by (simp add: q_def)
    have "x / q \<le> y / q" using assms(2) q by (simp add: divide_right_mono)
    then have "roundEven (x / q) \<le> roundEven (y / q)" by (rule roundEven_mono)
    then have "real_of_int (roundEven (x / q)) * q \<le> real_of_int (roundEven (y / q)) * q"
      using q by simp
    then show ?thesis
      using x y True by (simp add: round64_nonzero q_def)
  next
    case False
    with le have lt: "expo x + 1 \<le> expo y" by simp
    have "x \<le> 1 * 2 powi (expo x + 1)"
      using expo_bounds(2) [of x] x by simp
    then have "round64 x \<le> 1 * 2 powi (expo x + 1)"
      using round64_le_multiple [of x 1 "expo x + 1"] by simp
    also have "\<dots> \<le> 1 * 2 powi expo y"
      using lt by (simp add: power_int_increasing)
    also have "\<dots> \<le> round64 y"
    proof -
      have "1 * 2 powi expo y \<le> y"
        using expo_bounds(1) [of y] y by simp
      then show ?thesis
        using round64_ge_multiple [of 1 "expo y" y] by simp
    qed
    finally show ?thesis .
  qed
qed

subsection \<open>Whole seconds of a duration\<close>

lemma float64_exact: "\<bar>k\<bar> \<le> 2 ^ 53 \<Longrightarrow> float64 k = of_int k"
  by (simp add: float64_def round64_of_int)

lemma Seconds_nonneg_eq:
  assumes "0 \<le> d" and "d \<le> maxDuration"
  shows "Seconds d =
           round64 (of_int (d div 1000000000) +
             round64 (of_int (d mod 1000000000) / 1000000000))"
proof -
  have sd: "d sdiv Second = d div 1000000000" "d smod Second = d mod 1000000000"
    using assms(1)
    by (simp_all add: Second_def signed_divide_int_def signed_modulo_int_def sgn_if)
  have "0 \<le> d div 1000000000" "d div 1000000000 \<le> 9223372036"
    using assms by (simp_all add: maxDuration_def pos_imp_zdiv_nonneg_iff) 
  then have "\<bar>d div 1000000000\<bar> \<le> 2 ^ 53" by simp
  moreover have "0 \<le> d mod 1000000000" "d mod 1000000000 < 1000000000"
    by simp_all
  then have "\<bar>d mod 1000000000\<bar> \<le> 2 ^ 53" by simp
  ultimately show ?thesis
    by (simp add: Seconds_def Let_def sd float64_exact)
qed


lemma Seconds_bounds:
  assumes "0 \<le> d" and "d \<le> maxDuration"
  shows "of_int (d div 1000000000) \<le> Seconds d"
    and "Seconds d \<le> of_int (d div 1000000000) + 1"
proof -
  define sec where "sec = d div 1000000000"
  define frac where "frac = round64 (of_int (d mod 1000000000) / 1000000000)"
  have sec: "0 \<le> sec" "sec \<le> 9223372036"
    using assms by (simp_all add: sec_def maxDuration_def pos_imp_zdiv_nonneg_iff)
  have nsec: "0 \<le> d mod 1000000000" "d mod 1000000000 < 1000000000"
    by simp_all
  then have q: "0 \<le> real_of_int (d mod 1000000000) / 1000000000"
    "real_of_int (d mod 1000000000) / 1000000000 \<le> of_int 1"
    by simp_all
  have frac: "0 \<le> frac" "frac \<le> 1"
    using q round64_nonneg [OF q(1)] round64_le_int [OF q(2)] by (simp_all add: frac_def)
  have small: "\<bar>real_of_int sec + frac\<bar> < 2 ^ 53"
    using sec frac by simp
  have "of_int sec \<le> real_of_int sec + frac"
    using frac by simp
  then have lo: "of_int sec \<le> round64 (real_of_int sec + frac)"
    using small by (rule round64_ge_int)
  have "real_of_int sec + frac \<le> of_int (sec + 1)"
    using frac by simp
  then have "round64 (real_of_int sec + frac) \<le> of_int (sec + 1)"
    using small by (rule round64_le_int)
  with lo have "of_int sec \<le> round64 (real_of_int sec + frac)"
    and "round64 (real_of_int sec + frac) \<le> of_int sec + 1"
    by simp_all
  then show "of_int (d div 1000000000) \<le> Seconds d"
    and "Seconds d \<le> of_int (d div 1000000000) + 1"
    by (simp_all add: Seconds_nonneg_eq [OF assms] sec_def frac_def)
qed

text \<open>
  Below \<open>2\<^sup>2\<^sup>4\<close> seconds the sum is rounded by less than the billionth of a second that
  separates it from the next whole second.
\<close>

lemma Seconds_short:
  assumes "0 \<le> d" and "d < 16777216000000000"
  shows "Seconds d < of_int (d div 1000000000) + 1"
proof -
  define sec where "sec = d div 1000000000"
  define q where "q = real_of_int (d mod 1000000000) / 1000000000"
  define frac where "frac = round64 q"
  have range: "d \<le> maxDuration"
    using assms(2) by (simp add: maxDuration_def)
  have sec: "0 \<le> sec" "sec \<le> 16777215"
    using assms by (simp_all add: sec_def pos_imp_zdiv_nonneg_iff)
  have "0 \<le> d mod 1000000000" "d mod 1000000000 \<le> 999999999"
    using pos_mod_bound [of 1000000000 d] by simp_all
  then have q: "0 \<le> q" "q \<le> 999999999 / 1000000000"
    by (simp_all add: q_def)
  then have "\<bar>q\<bar> < 2 powi 0" by simp
  from round64_error_below [OF this] have "\<bar>frac - q\<bar> \<le> 1 / 2 ^ 54"
    by (simp add: frac_def power_int_minus_divide)
  then have "frac \<le> q + 1 / 2 ^ 54"
    by linarith
  with q(2) have "frac \<le> 999999999 / 1000000000 + 1 / 2 ^ 54"
    by linarith
  moreover have "0 \<le> frac"
    unfolding frac_def using q(1) by (rule round64_nonneg)
  ultimately have frac: "0 \<le> frac" "frac \<le> 999999999 / 1000000000 + 1 / 2 ^ 54"
    by simp_all
  have "\<bar>real_of_int sec + frac\<bar> < 2 powi 24"
    using sec frac by simp
  from round64_error_below [OF this]
  have "\<bar>round64 (real_of_int sec + frac) - (real_of_int sec + frac)\<bar> \<le> 1 / 2 ^ 30"
    by (simp add: power_int_minus_divide)
  then have "round64 (real_of_int sec + frac) \<le>
      real_of_int sec + (999999999 / 1000000000 + 1 / 2 ^ 54 + 1 / 2 ^ 30)"
    using frac(2) by linarith
  also have "\<dots> < real_of_int sec + 1"
    by simp
  finally show ?thesis
    by (simp add: Seconds_nonneg_eq [OF assms(1) range] sec_def frac_def q_def)
qed

lemma Sub_in_range:
  assumes "0 \<le> t - u" and "t - u \<le> maxDuration"
  shows "Sub t u = t - u"
proof -
  have "minDuration \<le> t - u"
    using assms(1) by (simp add: minDuration_def)
  then show ?thesis
    using assms(2) by (simp add: Sub_def)
qed

text \<open>
  When \<open>t\<close> is not before \<open>u\<close> and the difference fits a \<^verbatim>\<open>time.Duration\<close> (about 292
  years), the result is the difference in whole seconds or one second more.
\<close>

lemma durationSeconds_bounds:
  assumes "0 \<le> t - u" and "t - u \<le> maxDuration"
  shows "(t - u) div 1000000000 \<le> durationSeconds t u"
    and "durationSeconds t u \<le> (t - u) div 1000000000 + 1"
proof -
  note b = Seconds_bounds [OF assms]
  have "0 \<le> (t - u) div 1000000000"
    using assms(1) by (simp add: pos_imp_zdiv_nonneg_iff)
  with b(1) have "0 \<le> Seconds (t - u)" by linarith
  then have d: "durationSeconds t u = \<lfloor>Seconds (t - u)\<rfloor>"
    by (simp add: durationSeconds_def int64_of_float_def Sub_in_range [OF assms])
  show "(t - u) div 1000000000 \<le> durationSeconds t u"
    unfolding d using b(1) by (simp add: le_floor_iff)
  have "Seconds (t - u) \<le> of_int ((t - u) div 1000000000 + 1)"
    using b(2) by simp
  then show "durationSeconds t u \<le> (t - u) div 1000000000 + 1"
    unfolding d by (metis floor_mono floor_of_int)
qed

text \<open>
  When the difference is moreover less than \<open>2\<^sup>2\<^sup>4\<close> seconds (about 194 days), the result
  is the difference in whole seconds.
\<close>

lemma durationSeconds_short:
  assumes "0 \<le> t - u" and "t - u < 16777216000000000"
  shows "durationSeconds t u = (t - u) div 1000000000"
proof -
  have range: "t - u \<le> maxDuration"
    using assms(2) by (simp add: maxDuration_def)
  note lo = durationSeconds_bounds(1) [OF assms(1) range]
  have "0 \<le> (t - u) div 1000000000"
    using assms(1) by (simp add: pos_imp_zdiv_nonneg_iff)
  with Seconds_bounds(1) [OF assms(1) range] have "0 \<le> Seconds (t - u)" by linarith
  then have d: "durationSeconds t u = \<lfloor>Seconds (t - u)\<rfloor>"
    by (simp add: durationSeconds_def int64_of_float_def Sub_in_range [OF assms(1) range])
  have "Seconds (t - u) < of_int ((t - u) div 1000000000 + 1)"
    using Seconds_short [OF assms] by simp
  then have "\<lfloor>Seconds (t - u)\<rfloor> < (t - u) div 1000000000 + 1"
    by (simp only: floor_less_iff)
  then have "durationSeconds t u < (t - u) div 1000000000 + 1"
    by (simp only: d)
  with lo show ?thesis by simp
qed

subsection \<open>The in-place reversal\<close>

lemma reverseLoop_length: "length (reverseLoop i xs) = length xs"
proof (induction i xs rule: reverseLoop.induct)
  case (1 i xs)
  show ?case
  proof (cases "i < length xs div 2")
    case True
    then have "reverseLoop i xs =
        reverseLoop (i + 1) (xs[i := xs ! (length xs - 1 - i), length xs - 1 - i := xs ! i])"
      by (subst reverseLoop.simps) (simp add: Let_def)
    with 1 True show ?thesis by simp
  next
    case False
    then show ?thesis by (subst reverseLoop.simps) simp
  qed
qed

text \<open>
  Started at \<open>i\<close>, the loop mirrors the positions from \<open>i\<close> up to \<open>len - 1 - i\<close> and
  leaves the others alone.
\<close>

lemma reverseLoop_nth:
  "k < length xs \<Longrightarrow>
   reverseLoop i xs ! k =
     (if i \<le> k \<and> k < length xs - i then xs ! (length xs - 1 - k) else xs ! k)"
proof (induction i xs arbitrary: k rule: reverseLoop.induct)
  case (1 i xs)
  let ?n = "length xs"
  let ?j = "?n - 1 - i"
  let ?ys = "xs[i := xs ! ?j, ?j := xs ! i]"
  show ?case
  proof (cases "i < ?n div 2")
    case True
    then have unfold: "reverseLoop i xs = reverseLoop (i + 1) ?ys"
      by (subst reverseLoop.simps) (simp add: Let_def)
    have len: "length ?ys = ?n" by simp
    have ij: "i < ?j" "?j < ?n" using True by linarith+
    have IH: "reverseLoop (i + 1) ?ys ! k =
        (if i + 1 \<le> k \<and> k < ?n - (i + 1) then ?ys ! (?n - 1 - k) else ?ys ! k)"
      using "1.IH" [OF True refl, of k] "1.prems" len by simp
    show ?thesis
      unfolding unfold IH using ij "1.prems"
      by (auto simp: nth_list_update)
  next
    case False
    then have "reverseLoop i xs = xs"
      by (subst reverseLoop.simps) simp
    moreover have "i \<le> k \<and> k < ?n - i \<Longrightarrow> ?n - 1 - k = k"
      using False by linarith
    ultimately show ?thesis by auto
  qed
qed

lemma reverseLoop_rev: "reverseLoop 0 xs = rev xs"
  by (rule nth_equalityI) (simp_all add: reverseLoop_length reverseLoop_nth rev_nth)

subsection \<open>The inner loop over the results\<close>

lemma fold_resultStep:
  "fold resultStep rs acc =
     (fst acc \<and> (\<forall>r \<in> set rs. \<not> Success r),
      snd acc @ map Host (filter (\<lambda>r. \<not> Success r) rs))"
  by (induction rs arbitrary: acc) (auto simp: resultStep_def)

lemma scanResults_eq:
  "scanResults rs =
     ((\<forall>r \<in> set rs. \<not> Success r), map Host (filter (\<lambda>r. \<not> Success r) rs))"
  by (simp add: scanResults_def fold_resultStep)

lemma internetOnline_iff: "internetOnline e \<longleftrightarrow> (\<exists>r \<in> set (Results e). Success r)"
  by (simp add: internetOnline_def scanResults_eq)

lemma failedHosts_eq: "failedHosts e = map Host (filter (\<lambda>r. \<not> Success r) (Results e))"
  by (simp add: failedHosts_def scanResults_eq)

subsection \<open>The initial state and the empty log\<close>

lemma reverseLoop_nil: "reverseLoop 0 ([] :: 'a list) = []"
  by (simp add: reverseLoop.simps)

lemma runLoop_nil: "runLoop [] = initState"
  by (simp add: runLoop_def)

lemma initState_fields:
  "downtimeEvents initState = []"
  "onlineChecks initState = 0"
  "offlineChecks initState = 0"
  "totalDowntimeSeconds initState = 0"
  "lastCheckTime initState = None"
  "currentStatus initState = ''online''"
  "statusInitialized initState = False"
  by (simp_all add: initState_def)

lemma handleOngoing_empty: "handleOngoing now (runLoop []) = initState"
  by (simp add: handleOngoing_def runLoop_nil initState_fields)

subsection \<open>One iteration of the loop\<close>

lemma entryStep_eq:
  "entryStep e s =
     (if internetOnline e then onlineBranch e (s\<lparr>lastCheckTime := Some (Timestamp e)\<rparr>)
      else offlineBranch e (failedHosts e) (s\<lparr>lastCheckTime := Some (Timestamp e)\<rparr>))
     \<lparr>statusInitialized := True\<rparr>"
  by (simp add: entryStep_def internetOnline_def failedHosts_def split: prod.split)

lemma entryStep_online:
  assumes "internetOnline e"
  shows "lastStatus (entryStep e s)"
    and "statusInitialized (entryStep e s)"
    and "currentStatus (entryStep e s) = ''online''"
    and "onlineChecks (entryStep e s) = onlineChecks s + 1"
    and "offlineChecks (entryStep e s) = offlineChecks s"
    and "downtimeStart (entryStep e s) = downtimeStart s"
    and "downtimeFailedHosts (entryStep e s) = downtimeFailedHosts s"
    and "lastCheckTime (entryStep e s) = Some (Timestamp e)"
    and "downtimeEvents (entryStep e s) =
          (if statusInitialized s \<and> \<not> lastStatus s then
             downtimeEvents s @
               [\<lparr>StartTime = downtimeStart s, EndTime = Some (Timestamp e),
                 Duration = durationSeconds (Timestamp e) (downtimeStart s),
                 IsOngoing = False, FailedHosts = downtimeFailedHosts s\<rparr>]
           else downtimeEvents s)"
  using assms by (simp_all add: entryStep_eq onlineBranch_def Let_def)

lemma entryStep_offline:
  assumes "\<not> internetOnline e"
  shows "\<not> lastStatus (entryStep e s)"
    and "statusInitialized (entryStep e s)"
    and "currentStatus (entryStep e s) = ''offline''"
    and "onlineChecks (entryStep e s) = onlineChecks s"
    and "offlineChecks (entryStep e s) = offlineChecks s + 1"
    and "downtimeStart (entryStep e s) =
          (if statusInitialized s \<and> \<not> lastStatus s then downtimeStart s else Timestamp e)"
    and "downtimeFailedHosts (entryStep e s) =
          (if statusInitialized s \<and> \<not> lastStatus s then downtimeFailedHosts s
           else failedHosts e)"
    and "lastCheckTime (entryStep e s) = Some (Timestamp e)"
    and "downtimeEvents (entryStep e s) = downtimeEvents s"
  using assms by (simp_all add: entryStep_eq offlineBranch_def Let_def)

subsection \<open>The counters\<close>

lemma fold_entryStep_counters:
  "onlineChecks (fold entryStep logs s) = onlineChecks s + int (length (filter internetOnline logs)) \<and>
   offlineChecks (fold entryStep logs s) =
     offlineChecks s + int (length (filter (\<lambda>e. \<not> internetOnline e) logs))"
  by (induction logs arbitrary: s) (simp_all add: entryStep_online entryStep_offline)

lemma handleOngoing_counters:
  "onlineChecks (handleOngoing now s) = onlineChecks s"
  "offlineChecks (handleOngoing now s) = offlineChecks s"
  "currentStatus (handleOngoing now s) = currentStatus s"
  "lastCheckTime (handleOngoing now s) = lastCheckTime s"
  by (simp_all add: handleOngoing_def Let_def)

lemma OnlineChecks_eq:
  "OnlineChecks (calculateStats now logs) = int (length (filter internetOnline logs))"
  by (simp add: calculateStats_def Let_def handleOngoing_counters runLoop_def
      fold_entryStep_counters initState_fields)

lemma OfflineChecks_eq:
  "OfflineChecks (calculateStats now logs) =
     int (length (filter (\<lambda>e. \<not> internetOnline e) logs))"
  by (simp add: calculateStats_def Let_def handleOngoing_counters runLoop_def
      fold_entryStep_counters initState_fields)

lemma TotalChecks_eq: "TotalChecks (calculateStats now logs) = int (length logs)"
  by (simp add: calculateStats_def Let_def)

lemma UptimePercentage_eq:
  "UptimePercentage (calculateStats now logs) =
     (if TotalChecks (calculateStats now logs) > 0 then
        round64 (round64 (float64 (OnlineChecks (calculateStats now logs)) /
          float64 (TotalChecks (calculateStats now logs))) * 100)
      else 0)"
  by (simp add: calculateStats_def Let_def)

subsection \<open>The uptime percentage\<close>

lemma round64_1: "round64 1 = 1"
  using round64_of_int [of 1] by simp

lemma uptime_bounds:
  assumes "0 \<le> on" and "on \<le> tot" and "0 < tot"
  shows "0 \<le> round64 (round64 (float64 on / float64 tot) * 100)"
    and "round64 (round64 (float64 on / float64 tot) * 100) \<le> 100"
proof -
  define a where "a = float64 on"
  define b where "b = float64 tot"
  define r where "r = round64 (a / b)"
  have a: "0 \<le> a"
    unfolding a_def float64_def using assms(1) by (intro round64_nonneg) simp
  have ab: "a \<le> b"
    unfolding a_def b_def float64_def using assms(1,2) by (intro round64_mono) simp_all
  have "round64 1 \<le> round64 (of_int tot)"
    using assms(3) by (intro round64_mono) simp_all
  then have b: "1 \<le> b"
    by (simp add: round64_1 b_def float64_def)
  have y: "0 \<le> a / b" "a / b \<le> of_int 1"
    using a ab b by simp_all
  then have "\<bar>a / b\<bar> < 2 ^ 53" by simp
  with y have r: "0 \<le> r" "r \<le> 1"
    using round64_nonneg [of "a / b"] round64_le_int [of "a / b" 1] by (simp_all add: r_def)
  then have z: "0 \<le> r * 100" "r * 100 \<le> of_int 100"
    by simp_all
  then have "\<bar>r * 100\<bar> < 2 ^ 53" by simp
  with z have "0 \<le> round64 (r * 100)" "round64 (r * 100) \<le> 100"
    using round64_nonneg [of "r * 100"] round64_le_int [of "r * 100" 100] by simp_all
  then show "0 \<le> round64 (round64 (float64 on / float64 tot) * 100)"
    and "round64 (round64 (float64 on / float64 tot) * 100) \<le> 100"
    by (simp_all add: r_def a_def b_def)
qed

lemma uptime_error:
  assumes "0 \<le> on" and "on \<le> tot" and "0 < tot" and "tot \<le> 2 ^ 53"
  shows "\<bar>round64 (round64 (float64 on / float64 tot) * 100) -
           real_of_int on / real_of_int tot * 100\<bar> \<le> 1 / 2 ^ 45"
proof -
  define y where "y = real_of_int on / real_of_int tot"
  define r where "r = round64 y"
  have exact: "float64 on = of_int on" "float64 tot = of_int tot"
    using assms by (simp_all add: float64_exact)
  have y: "0 \<le> y" "y \<le> 1"
    using assms by (simp_all add: y_def)
  then have "\<bar>y\<bar> < 2 powi 1" by simp
  from round64_error_below [OF this] have ry: "\<bar>r - y\<bar> \<le> 1 / 2 ^ 53"
    by (simp add: r_def power_int_minus_divide)
  have "0 \<le> r" "r \<le> 1"
    using y round64_nonneg [of y] round64_le_int [of y 1] by (simp_all add: r_def)
  then have "\<bar>r * 100\<bar> < 2 powi 7" by simp
  from round64_error_below [OF this]
  have "\<bar>round64 (r * 100) - r * 100\<bar> \<le> 1 / 2 ^ 47"
    by (simp add: power_int_minus_divide)
  with ry have "\<bar>round64 (r * 100) - y * 100\<bar> \<le> 1 / 2 ^ 47 + 100 / 2 ^ 53"
    by linarith
  also have "\<dots> \<le> 1 / 2 ^ 45" by simp
  finally show ?thesis
    by (simp add: exact r_def y_def)
qed

subsection \<open>Runs of rounds with the same verdict\<close>

lemma fold_offline_run:
  assumes "statusInitialized s" and "\<not> lastStatus s"
    and "\<forall>e \<in> set offs. \<not> internetOnline e"
  shows "downtimeEvents (fold entryStep offs s) = downtimeEvents s \<and>
         downtimeStart (fold entryStep offs s) = downtimeStart s \<and>
         downtimeFailedHosts (fold entryStep offs s) = downtimeFailedHosts s \<and>
         statusInitialized (fold entryStep offs s) \<and>
         \<not> lastStatus (fold entryStep offs s)"
  using assms
proof (induction offs arbitrary: s)
  case Nil
  then show ?case by simp
next
  case (Cons e offs)
  have e: "\<not> internetOnline e" using Cons.prems by simp
  have "statusInitialized (entryStep e s)" "\<not> lastStatus (entryStep e s)"
    by (simp_all add: entryStep_offline [OF e])
  moreover have "\<forall>e \<in> set offs. \<not> internetOnline e" using Cons.prems by simp
  ultimately have "downtimeEvents (fold entryStep offs (entryStep e s)) = downtimeEvents (entryStep e s) \<and>
         downtimeStart (fold entryStep offs (entryStep e s)) = downtimeStart (entryStep e s) \<and>
         downtimeFailedHosts (fold entryStep offs (entryStep e s)) = downtimeFailedHosts (entryStep e s) \<and>
         statusInitialized (fold entryStep offs (entryStep e s)) \<and>
         \<not> lastStatus (fold entryStep offs (entryStep e s))"
    by (rule Cons.IH)
  then show ?case
    using Cons.prems(1,2) by (simp add: entryStep_offline [OF e])
qed

lemma fold_online_run:
  assumes "\<not> statusInitialized s \<or> lastStatus s"
    and "\<forall>e \<in> set ons. internetOnline e"
  shows "downtimeEvents (fold entryStep ons s) = downtimeEvents s \<and>
         (\<not> statusInitialized (fold entryStep ons s) \<or> lastStatus (fold entryStep ons s))"
  using assms
proof (induction ons arbitrary: s)
  case Nil
  then show ?case by simp
next
  case (Cons e ons)
  have e: "internetOnline e" using Cons.prems by simp
  have "\<not> statusInitialized (entryStep e s) \<or> lastStatus (entryStep e s)"
    by (simp add: entryStep_online [OF e])
  moreover have "\<forall>e \<in> set ons. internetOnline e" using Cons.prems by simp
  ultimately have "downtimeEvents (fold entryStep ons (entryStep e s)) = downtimeEvents (entryStep e s) \<and>
         (\<not> statusInitialized (fold entryStep ons (entryStep e s)) \<or> lastStatus (fold entryStep ons (entryStep e s)))"
    by (rule Cons.IH)
  then show ?case
    using Cons.prems(1) by (auto simp: entryStep_online [OF e])
qed

lemma fold_entryStep_snoc:
  "statusInitialized (fold entryStep (xs @ [x]) s) \<and>
   lastStatus (fold entryStep (xs @ [x]) s) = internetOnline x \<and>
   lastCheckTime (fold entryStep (xs @ [x]) s) = Some (Timestamp x)"
  by (cases "internetOnline x") (simp_all add: entryStep_online entryStep_offline)

lemma fold_entryStep_last:
  assumes "logs \<noteq> []"
  shows "statusInitialized (fold entryStep logs s) \<and>
         lastStatus (fold entryStep logs s) = internetOnline (last logs) \<and>
         lastCheckTime (fold entryStep logs s) = Some (Timestamp (last logs))"
  using fold_entryStep_snoc [of "butlast logs" "last logs" s] assms by simp

lemma fold_entryStep_closed:
  assumes "\<forall>ev \<in> set (downtimeEvents s). \<not> IsOngoing ev"
  shows "\<forall>ev \<in> set (downtimeEvents (fold entryStep logs s)). \<not> IsOngoing ev"
  using assms
proof (induction logs arbitrary: s)
  case Nil
  then show ?case by simp
next
  case (Cons e logs)
  have "\<forall>ev \<in> set (downtimeEvents (entryStep e s)). \<not> IsOngoing ev"
    using Cons.prems
    by (cases "internetOnline e") (auto simp: entryStep_online entryStep_offline)
  then show ?case
    using Cons.IH by simp
qed

lemma runLoop_closed: "\<forall>ev \<in> set (downtimeEvents (runLoop logs)). \<not> IsOngoing ev"
  unfolding runLoop_def by (rule fold_entryStep_closed) (simp add: initState_fields)

lemma handleOngoing_online: "lastStatus s \<Longrightarrow> handleOngoing now s = s"
  by (simp add: handleOngoing_def)

text \<open>A run of offline rounds that starts outside a downtime opens the interval at its first round.\<close>

lemma fold_opening_run:
  assumes "\<not> statusInitialized s \<or> lastStatus s"
    and "\<not> internetOnline off"
    and "\<forall>e \<in> set offs. \<not> internetOnline e"
  shows "downtimeEvents (fold entryStep (off # offs) s) = downtimeEvents s \<and>
         downtimeStart (fold entryStep (off # offs) s) = Timestamp off \<and>
         downtimeFailedHosts (fold entryStep (off # offs) s) = failedHosts off \<and>
         statusInitialized (fold entryStep (off # offs) s) \<and>
         \<not> lastStatus (fold entryStep (off # offs) s)"
proof -
  have "statusInitialized (entryStep off s)" "\<not> lastStatus (entryStep off s)"
    by (simp_all add: entryStep_offline [OF assms(2)])
  from fold_offline_run [OF this assms(3)] show ?thesis
    using assms(1) by (auto simp: entryStep_offline [OF assms(2)])
qed

lemma handleOngoing_offline:
  assumes "statusInitialized s" and "\<not> lastStatus s" and "lastCheckTime s \<noteq> None"
  shows "downtimeEvents (handleOngoing now s) =
           downtimeEvents s @
             [\<lparr>StartTime = downtimeStart s, EndTime = None,
               Duration = durationSeconds now (downtimeStart s),
               IsOngoing = True, FailedHosts = downtimeFailedHosts s\<rparr>]"
  using assms by (simp add: handleOngoing_def Let_def)

lemma DowntimeEvents_eq:
  "DowntimeEvents (calculateStats now logs) =
     rev (downtimeEvents (handleOngoing now (runLoop logs)))"
  by (simp add: calculateStats_def Let_def reverseLoop_rev)

lemma RecentDowntime_eq:
  "RecentDowntime (calculateStats now logs) =
     (case DowntimeEvents (calculateStats now logs) of [] \<Rightarrow> None | ev # _ \<Rightarrow> Some ev)"
  by (simp add: calculateStats_def Let_def split: list.split)

subsection \<open>Order of the events\<close>

text \<open>
  The loop invariant for rounds in ascending order: the start times of the events are
  ascending, none is later than a round still to come, and an open interval starts
  no earlier than every event and no later than every round still to come.
\<close>

lemma fold_entryStep_sorted:
  assumes "sorted (map Timestamp logs)"
    and "sorted (map StartTime (downtimeEvents s))"
    and "\<forall>ev \<in> set (downtimeEvents s). \<forall>e \<in> set logs. StartTime ev \<le> Timestamp e"
    and "statusInitialized s \<and> \<not> lastStatus s \<longrightarrow>
           (\<forall>ev \<in> set (downtimeEvents s). StartTime ev \<le> downtimeStart s) \<and>
           (\<forall>e \<in> set logs. downtimeStart s \<le> Timestamp e)"
  shows "sorted (map StartTime (downtimeEvents (fold entryStep logs s))) \<and>
         (statusInitialized (fold entryStep logs s) \<and> \<not> lastStatus (fold entryStep logs s) \<longrightarrow>
            (\<forall>ev \<in> set (downtimeEvents (fold entryStep logs s)).
               StartTime ev \<le> downtimeStart (fold entryStep logs s)))"
  using assms
proof (induction logs arbitrary: s)
  case Nil
  then show ?case by simp
next
  case (Cons e logs)
  let ?s = "entryStep e s"
  have sorted_logs: "sorted (map Timestamp logs)"
    and e_least: "\<forall>e' \<in> set logs. Timestamp e \<le> Timestamp e'"
    using Cons.prems(1) by simp_all
  have inv: "sorted (map StartTime (downtimeEvents ?s)) \<and>
      (\<forall>ev \<in> set (downtimeEvents ?s). \<forall>e' \<in> set logs. StartTime ev \<le> Timestamp e') \<and>
      (statusInitialized ?s \<and> \<not> lastStatus ?s \<longrightarrow>
           (\<forall>ev \<in> set (downtimeEvents ?s). StartTime ev \<le> downtimeStart ?s) \<and>
           (\<forall>e' \<in> set logs. downtimeStart ?s \<le> Timestamp e'))"
  proof (cases "internetOnline e")
    case True
    show ?thesis
      using Cons.prems(2,3,4)
      by (auto simp: entryStep_online [OF True] sorted_append)
  next
    case False
    show ?thesis
      using Cons.prems(2,3,4) e_least
      by (auto simp: entryStep_offline [OF False])
  qed
  have "sorted (map StartTime (downtimeEvents (fold entryStep logs ?s))) \<and>
         (statusInitialized (fold entryStep logs ?s) \<and> \<not> lastStatus (fold entryStep logs ?s) \<longrightarrow>
            (\<forall>ev \<in> set (downtimeEvents (fold entryStep logs ?s)).
               StartTime ev \<le> downtimeStart (fold entryStep logs ?s)))"
    using sorted_logs inv by (intro Cons.IH) simp_all
  then show ?case by simp
qed

lemma handleOngoing_sorted:
  assumes "sorted (map StartTime (downtimeEvents s))"
    and "statusInitialized s \<and> \<not> lastStatus s \<longrightarrow>
           (\<forall>ev \<in> set (downtimeEvents s). StartTime ev \<le> downtimeStart s)"
  shows "sorted (map StartTime (downtimeEvents (handleOngoing now s)))"
  using assms by (auto simp: handleOngoing_def Let_def sorted_append)

lemma handleOngoing_events:
  "downtimeEvents (handleOngoing now s) = downtimeEvents s \<or>
   (\<exists>ev. IsOngoing ev \<and> downtimeEvents (handleOngoing now s) = downtimeEvents s @ [ev])"
  by (simp add: handleOngoing_def Let_def)

subsection \<open>Fields the result does not depend on\<close>

lemma scanResults_cong:
  assumes "list_all2 (\<lambda>r r'. Host r = Host r' \<and> Success r = Success r') rs rs'"
  shows "scanResults rs = scanResults rs'"
  using assms unfolding scanResults_eq
  by (induction rule: list_all2_induct) auto

lemma entryStep_cong:
  assumes "Timestamp e = Timestamp e'"
    and "scanResults (Results e) = scanResults (Results e')"
  shows "entryStep e s = entryStep e' s"
  using assms
  by (simp add: entryStep_def onlineBranch_def offlineBranch_def Let_def split: prod.split)

lemma fold_entryStep_cong:
  assumes "list_all2 (\<lambda>e e'. Timestamp e = Timestamp e' \<and>
             list_all2 (\<lambda>r r'. Host r = Host r' \<and> Success r = Success r')
               (Results e) (Results e')) logs logs'"
  shows "fold entryStep logs s = fold entryStep logs' s"
  using assms
proof (induction arbitrary: s rule: list_all2_induct)
  case Nil
  show ?case by simp
next
  case (Cons e logs e' logs')
  have "entryStep e s = entryStep e' s"
    using Cons.hyps(1) by (intro entryStep_cong scanResults_cong) simp_all
  then show ?case
    using Cons.IH by simp
qed

subsection \<open>Decompositions\<close>

text \<open>Every log that ends with an offline round ends with a maximal run of offline rounds.\<close>

lemma final_offline_run_exists:
  assumes "logs \<noteq> []" and "\<not> internetOnline (last logs)"
  shows "\<exists>pre off offs. logs = pre @ off # offs \<and>
           (pre = [] \<or> internetOnline (last pre)) \<and>
           \<not> internetOnline off \<and> (\<forall>e \<in> set offs. \<not> internetOnline e)"
  using assms
proof (induction logs)
  case Nil
  then show ?case by simp
next
  case (Cons e rest)
  show ?case
  proof (cases "rest = []")
    case True
    with Cons.prems have "\<not> internetOnline e"
      by simp
    with True show ?thesis
      by (intro exI [of _ "[]"] exI [of _ e]) simp
  next
    case False
    then have "\<not> internetOnline (last rest)"
      using Cons.prems(2) by simp
    from Cons.IH [OF False this] obtain pre off offs where run: "rest = pre @ off # offs"
      "pre = [] \<or> internetOnline (last pre)" "\<not> internetOnline off"
      "\<forall>e \<in> set offs. \<not> internetOnline e"
      by blast
    show ?thesis
    proof (cases "pre = [] \<and> \<not> internetOnline e")
      case True
      with run show ?thesis
        by (intro exI [of _ "[]"] exI [of _ e] exI [of _ "off # offs"]) simp
    next
      case False
      with run show ?thesis
        by (intro exI [of _ "e # pre"] exI [of _ off] exI [of _ offs]) auto
    qed
  qed
qed

lemma checks_partition:
  "OnlineChecks (calculateStats now logs) + OfflineChecks (calculateStats now logs) =
   TotalChecks (calculateStats now logs)"
proof -
  have "length (filter internetOnline logs) + length (filter (\<lambda>e. \<not> internetOnline e) logs)
          = length logs"
    by (rule sum_length_filter_compl)
  then show ?thesis
    by (simp add: OnlineChecks_eq OfflineChecks_eq TotalChecks_eq flip: of_nat_add)
qed

subsection \<open>The event of a run of offline rounds\<close>

lemma final_run_ongoing:
  assumes "logs = pre @ off # offs"
    and "pre = [] \<or> internetOnline (last pre)"
    and "\<not> internetOnline off"
    and "\<forall>e \<in> set offs. \<not> internetOnline e"
  shows "filter IsOngoing (DowntimeEvents (calculateStats now logs)) =
           [\<lparr>StartTime = Timestamp off, EndTime = None,
             Duration = durationSeconds now (Timestamp off),
             IsOngoing = True, FailedHosts = failedHosts off\<rparr>]"
proof -
  let ?s = "fold entryStep pre initState"
  let ?t = "fold entryStep (off # offs) ?s"
  have run: "runLoop logs = ?t"
    by (simp add: runLoop_def assms(1))
  have pre: "\<not> statusInitialized ?s \<or> lastStatus ?s"
  proof (cases "pre = []")
    case True
    then show ?thesis by (simp add: initState_fields)
  next
    case False
    with assms(2) fold_entryStep_last [OF False, of initState] show ?thesis by simp
  qed
  note t = fold_opening_run [OF pre assms(3,4)]
  have "lastCheckTime ?t \<noteq> None"
    using fold_entryStep_last [of "off # offs" ?s] by simp
  with t have "downtimeEvents (handleOngoing now ?t) =
      downtimeEvents ?s @
        [\<lparr>StartTime = Timestamp off, EndTime = None,
          Duration = durationSeconds now (Timestamp off),
          IsOngoing = True, FailedHosts = failedHosts off\<rparr>]"
    by (simp add: handleOngoing_offline)
  moreover have "filter IsOngoing (rev (downtimeEvents ?s)) = []"
    using runLoop_closed [of pre] by (simp add: runLoop_def filter_empty_conv)
  ultimately show ?thesis
    by (simp add: DowntimeEvents_eq run)
qed

lemma single_downtime_closed:
  assumes "logs = ons @ off # offs @ [on]"
    and "\<forall>e \<in> set ons. internetOnline e"
    and "\<not> internetOnline off"
    and "\<forall>e \<in> set offs. \<not> internetOnline e"
    and "internetOnline on"
  shows "DowntimeEvents (calculateStats now logs) =
           [\<lparr>StartTime = Timestamp off, EndTime = Some (Timestamp on),
             Duration = durationSeconds (Timestamp on) (Timestamp off),
             IsOngoing = False, FailedHosts = failedHosts off\<rparr>]"
proof -
  let ?s = "fold entryStep ons initState"
  let ?t = "fold entryStep (off # offs) ?s"
  have run: "runLoop logs = entryStep on ?t"
    by (simp add: runLoop_def assms(1))
  have s: "downtimeEvents ?s = [] \<and> (\<not> statusInitialized ?s \<or> lastStatus ?s)"
    using fold_online_run [of initState ons] assms(2) by (simp add: initState_fields)
  then have pre: "\<not> statusInitialized ?s \<or> lastStatus ?s" ..
  note t = fold_opening_run [OF pre assms(3,4)]
  have "downtimeEvents (entryStep on ?t) =
      [\<lparr>StartTime = Timestamp off, EndTime = Some (Timestamp on),
        Duration = durationSeconds (Timestamp on) (Timestamp off),
        IsOngoing = False, FailedHosts = failedHosts off\<rparr>]"
    using t s by (simp add: entryStep_online [OF assms(5)])
  moreover have "handleOngoing now (entryStep on ?t) = entryStep on ?t"
    by (rule handleOngoing_online) (simp add: entryStep_online [OF assms(5)])
  ultimately show ?thesis
    by (simp add: DowntimeEvents_eq run)
qed

subsection \<open>Evaluation on concrete logs\<close>

lemmas duration_eval = durationSeconds_short

lemmas round64_eval = float64_def round64_def Let_def expo_def roundEven_def bitlength_pos
  bitlength_0

lemmas seconds_eval = durationSeconds_def Sub_def minDuration_def maxDuration_def Second_def
  Seconds_def int64_of_float_def signed_divide_int_def signed_modulo_int_def

lemmas run_eval = calculateStats_def runLoop_def entryStep_def scanResults_def resultStep_def
  onlineBranch_def offlineBranch_def handleOngoing_def initState_def Let_def reverseLoop_rev

section \<open>Claims\<close>

text \<open>
  C1. For every round with at least one result, the verdict is online if and only if at
  least one result has \<open>Success\<close>, and the status the loop records for the round is that
  verdict; a round whose results all fail is classified offline, and its list of failed
  hosts is the hosts of the failing results in input order (here: of all results).
\<close>

theorem all_fail_rule:
  assumes "Results e \<noteq> []"
  shows "(internetOnline e \<longleftrightarrow> (\<exists>r \<in> set (Results e). Success r)) \<and>
         currentStatus (entryStep e s) =
           (if \<exists>r \<in> set (Results e). Success r then ''online'' else ''offline'') \<and>
         ((\<forall>r \<in> set (Results e). \<not> Success r) \<longrightarrow>
            \<not> internetOnline e \<and> failedHosts e = map Host (Results e)) \<and>
         failedHosts e = map Host (filter (\<lambda>r. \<not> Success r) (Results e))"
proof -
  have "currentStatus (entryStep e s) = (if internetOnline e then ''online'' else ''offline'')"
    by (simp add: entryStep_online entryStep_offline)
  moreover have "filter (\<lambda>r. \<not> Success r) (Results e) = Results e"
    if "\<forall>r \<in> set (Results e). \<not> Success r"
    using that by (simp add: filter_id_conv)
  ultimately show ?thesis
    by (simp add: internetOnline_iff failedHosts_eq)
qed

theorem all_fail_rule_witness:
  "\<not> internetOnline
      \<lparr>Timestamp = 70000000000, Results =
        [\<lparr>Host = ''a'', Success = False, Latency = 5000, Error = ''timeout'', PingTimestamp = 70000000000\<rparr>,
         \<lparr>Host = ''c'', Success = False, Latency = 5000, Error = ''no route'', PingTimestamp = 70000000000\<rparr>]\<rparr> \<and>
   failedHosts
      \<lparr>Timestamp = 70000000000, Results =
        [\<lparr>Host = ''a'', Success = False, Latency = 5000, Error = ''timeout'', PingTimestamp = 70000000000\<rparr>,
         \<lparr>Host = ''c'', Success = False, Latency = 5000, Error = ''no route'', PingTimestamp = 70000000000\<rparr>]\<rparr> = [''a'', ''c''] \<and>
   currentStatus (entryStep
      \<lparr>Timestamp = 70000000000, Results =
        [\<lparr>Host = ''a'', Success = False, Latency = 5000, Error = ''timeout'', PingTimestamp = 70000000000\<rparr>,
         \<lparr>Host = ''c'', Success = False, Latency = 5000, Error = ''no route'', PingTimestamp = 70000000000\<rparr>]\<rparr> initState) = ''offline''"
  using all_fail_rule [of
      "\<lparr>Timestamp = 70000000000, Results =
        [\<lparr>Host = ''a'', Success = False, Latency = 5000, Error = ''timeout'', PingTimestamp = 70000000000\<rparr>,
         \<lparr>Host = ''c'', Success = False, Latency = 5000, Error = ''no route'', PingTimestamp = 70000000000\<rparr>]\<rparr>" initState]
  by simp

text \<open>
  C2. The claim that a round with zero results is skipped does not hold: the inner loop
  does not run, \<open>allFailed\<close> keeps its initial value, and the round is an offline round.
  A log of one such round gives one check, counted offline, the status \<open>''offline''\<close>
  and an ongoing downtime event, where the empty log gives none of these.
\<close>

theorem empty_round_not_skipped_counterexample:
  "calculateStats 130000000000 [\<lparr>Timestamp = 40000000000, Results = []\<rparr>] \<noteq>
     calculateStats 130000000000 [] \<and>
   calculateStats 130000000000 [\<lparr>Timestamp = 40000000000, Results = []\<rparr>] =
     \<lparr>CurrentStatus = ''offline'', TotalChecks = 1, OnlineChecks = 0, OfflineChecks = 1,
      UptimePercentage = 0, TotalDowntimeHours = 3602879701896397 / 2 ^ 57,
      DowntimeEvents = [\<lparr>StartTime = 40000000000, EndTime = None, Duration = 90, IsOngoing = True, FailedHosts = []\<rparr>],
      RecentDowntime = Some \<lparr>StartTime = 40000000000, EndTime = None, Duration = 90, IsOngoing = True, FailedHosts = []\<rparr>,
      TimeSinceLastCheck = Some 40000000000\<rparr>"
  by (simp add: run_eval duration_eval round64_eval)

text \<open>
  C2, as amended. A round with zero results is an offline round with an empty list of
  failed hosts: it is counted in \<open>offlineChecks\<close> and in \<open>TotalChecks\<close>, not in
  \<open>onlineChecks\<close>; it sets the status to \<open>''offline''\<close>; it opens a downtime interval at
  its timestamp when none is open and leaves an open one as it is; it adds no event,
  so it never closes an interval.
\<close>

theorem empty_round_counts_offline:
  assumes "Results e = []"
  shows "\<not> internetOnline e \<and> failedHosts e = [] \<and>
         offlineChecks (entryStep e s) = offlineChecks s + 1 \<and>
         onlineChecks (entryStep e s) = onlineChecks s \<and>
         currentStatus (entryStep e s) = ''offline'' \<and>
         downtimeEvents (entryStep e s) = downtimeEvents s \<and>
         downtimeStart (entryStep e s) =
           (if statusInitialized s \<and> \<not> lastStatus s then downtimeStart s else Timestamp e) \<and>
         downtimeFailedHosts (entryStep e s) =
           (if statusInitialized s \<and> \<not> lastStatus s then downtimeFailedHosts s else []) \<and>
         statusInitialized (entryStep e s) \<and> \<not> lastStatus (entryStep e s) \<and>
         TotalChecks (calculateStats now (pre @ e # post)) =
           int (length pre) + 1 + int (length post)"
proof -
  have off: "\<not> internetOnline e"
    using assms by (simp add: internetOnline_iff)
  moreover have "failedHosts e = []"
    using assms by (simp add: failedHosts_eq)
  ultimately show ?thesis
    by (simp add: entryStep_offline [OF off] TotalChecks_eq)
qed

theorem empty_round_counts_offline_witness:
  "offlineChecks (entryStep \<lparr>Timestamp = 40000000000, Results = []\<rparr> initState) = 1 \<and>
   currentStatus (entryStep \<lparr>Timestamp = 40000000000, Results = []\<rparr> initState) = ''offline'' \<and>
   downtimeStart (entryStep \<lparr>Timestamp = 40000000000, Results = []\<rparr> initState) = 40000000000 \<and>
   downtimeEvents (entryStep \<lparr>Timestamp = 40000000000, Results = []\<rparr> initState) = [] \<and>
   TotalChecks (calculateStats 130000000000
     ([\<lparr>Timestamp = 10000000000, Results =
        [\<lparr>Host = ''a'', Success = True, Latency = 12, Error = '''', PingTimestamp = 10000000000\<rparr>]\<rparr>] @
      \<lparr>Timestamp = 40000000000, Results = []\<rparr> # [])) = 2"
  using empty_round_counts_offline [of "\<lparr>Timestamp = 40000000000, Results = []\<rparr>" initState 130000000000
     "[\<lparr>Timestamp = 10000000000, Results =
        [\<lparr>Host = ''a'', Success = True, Latency = 12, Error = '''', PingTimestamp = 10000000000\<rparr>]\<rparr>]" "[]"]
  by (simp add: initState_def)

text \<open>
  C3. The claim holds but for the duration. The duration of the ongoing event is
  \<^verbatim>\<open>int64(time.Since(downtimeStart).Seconds())\<close>, and \<^verbatim>\<open>Seconds\<close> returns a \<^verbatim>\<open>float64\<close>.
  For a downtime that started 20000000999999999 nanoseconds before \<open>now\<close>, that is 20000000 whole
  seconds and 999999999 nanoseconds, the sum of the seconds and the fraction is rounded
  to 20000001, and the event reports 20000001 seconds, more than have passed.
\<close>

theorem ongoing_duration_counterexample:
  "DowntimeEvents (calculateStats 20000040999999999
     [\<lparr>Timestamp = 40000000000, Results =
              [\<lparr>Host = ''a'', Success = False, Latency = 5000, Error = ''timeout'', PingTimestamp = 40000000000\<rparr>]\<rparr>]) =
   [\<lparr>StartTime = 40000000000, EndTime = None, Duration = 20000001, IsOngoing = True, FailedHosts = [''a'']\<rparr>] \<and>
   (20000040999999999 - 40000000000) div 1000000000 = (20000000 :: int)"
  by (simp add: run_eval seconds_eval round64_eval)

text \<open>
  C3, as amended. If the log ends with a run of offline rounds (the round before the
  run, if there is one, being online), the result has exactly one event with
  \<open>IsOngoing\<close>: it has no end time, it starts at the timestamp of the first round of the
  run, it carries the failed hosts of that round, and its duration is
  \<^verbatim>\<open>int64(now.Sub(start).Seconds())\<close> for the instant \<open>now\<close> of the query, whatever the
  timestamp of the last round is. When \<open>now\<close> minus the start is at least \<open>0\<close> and less
  than \<open>2\<^sup>2\<^sup>4\<close> seconds (about 194 days), the duration is that difference in whole
  seconds; up to the range of a \<^verbatim>\<open>time.Duration\<close> (about 292 years) it is that number
  or one more. By \<open>final_offline_run_exists\<close> every non-empty log whose last round is
  offline has this form.
\<close>

theorem ongoing_event:
  assumes "logs = pre @ off # offs"
    and "pre = [] \<or> internetOnline (last pre)"
    and "\<not> internetOnline off"
    and "\<forall>e \<in> set offs. \<not> internetOnline e"
  shows "filter IsOngoing (DowntimeEvents (calculateStats now logs)) =
           [\<lparr>StartTime = Timestamp off, EndTime = None,
             Duration = durationSeconds now (Timestamp off),
             IsOngoing = True, FailedHosts = failedHosts off\<rparr>] \<and>
         (0 \<le> now - Timestamp off \<and> now - Timestamp off < 16777216000000000 \<longrightarrow>
            durationSeconds now (Timestamp off) = (now - Timestamp off) div 1000000000) \<and>
         (0 \<le> now - Timestamp off \<and> now - Timestamp off \<le> maxDuration \<longrightarrow>
            (now - Timestamp off) div 1000000000 \<le> durationSeconds now (Timestamp off) \<and>
            durationSeconds now (Timestamp off) \<le> (now - Timestamp off) div 1000000000 + 1)"
  using final_run_ongoing [OF assms, of now]
    durationSeconds_short [of now "Timestamp off"]
    durationSeconds_bounds [of now "Timestamp off"]
  by blast

theorem ongoing_event_witness:
  "filter IsOngoing (DowntimeEvents (calculateStats 130000000000
     [\<lparr>Timestamp = 10000000000, Results =
              [\<lparr>Host = ''a'', Success = True, Latency = 12, Error = '''', PingTimestamp = 10000000000\<rparr>,
               \<lparr>Host = ''b'', Success = True, Latency = 12, Error = '''', PingTimestamp = 10000000000\<rparr>]\<rparr>,
       \<lparr>Timestamp = 40000000000, Results =
              [\<lparr>Host = ''a'', Success = False, Latency = 5000, Error = ''timeout'', PingTimestamp = 40000000000\<rparr>,
               \<lparr>Host = ''b'', Success = False, Latency = 5000, Error = ''timeout'', PingTimestamp = 40000000000\<rparr>]\<rparr>,
       \<lparr>Timestamp = 70000000000, Results =
              [\<lparr>Host = ''a'', Success = False, Latency = 5000, Error = ''timeout'', PingTimestamp = 70000000000\<rparr>,
               \<lparr>Host = ''c'', Success = False, Latency = 5000, Error = ''no route'', PingTimestamp = 70000000000\<rparr>]\<rparr>])) =
   [\<lparr>StartTime = 40000000000, EndTime = None, Duration = 90, IsOngoing = True, FailedHosts = [''a'', ''b'']\<rparr>]"
  using ongoing_event [of
     "[\<lparr>Timestamp = 10000000000, Results =
              [\<lparr>Host = ''a'', Success = True, Latency = 12, Error = '''', PingTimestamp = 10000000000\<rparr>,
               \<lparr>Host = ''b'', Success = True, Latency = 12, Error = '''', PingTimestamp = 10000000000\<rparr>]\<rparr>,
       \<lparr>Timestamp = 40000000000, Results =
              [\<lparr>Host = ''a'', Success = False, Latency = 5000, Error = ''timeout'', PingTimestamp = 40000000000\<rparr>,
               \<lparr>Host = ''b'', Success = False, Latency = 5000, Error = ''timeout'', PingTimestamp = 40000000000\<rparr>]\<rparr>,
       \<lparr>Timestamp = 70000000000, Results =
              [\<lparr>Host = ''a'', Success = False, Latency = 5000, Error = ''timeout'', PingTimestamp = 70000000000\<rparr>,
               \<lparr>Host = ''c'', Success = False, Latency = 5000, Error = ''no route'', PingTimestamp = 70000000000\<rparr>]\<rparr>]"
     "[\<lparr>Timestamp = 10000000000, Results =
              [\<lparr>Host = ''a'', Success = True, Latency = 12, Error = '''', PingTimestamp = 10000000000\<rparr>,
               \<lparr>Host = ''b'', Success = True, Latency = 12, Error = '''', PingTimestamp = 10000000000\<rparr>]\<rparr>]"
     "\<lparr>Timestamp = 40000000000, Results =
              [\<lparr>Host = ''a'', Success = False, Latency = 5000, Error = ''timeout'', PingTimestamp = 40000000000\<rparr>,
               \<lparr>Host = ''b'', Success = False, Latency = 5000, Error = ''timeout'', PingTimestamp = 40000000000\<rparr>]\<rparr>"
     "[\<lparr>Timestamp = 70000000000, Results =
              [\<lparr>Host = ''a'', Success = False, Latency = 5000, Error = ''timeout'', PingTimestamp = 70000000000\<rparr>,
               \<lparr>Host = ''c'', Success = False, Latency = 5000, Error = ''no route'', PingTimestamp = 70000000000\<rparr>]\<rparr>]" 130000000000]
  by (simp add: internetOnline_iff failedHosts_eq duration_eval)


text \<open>
  C4. The claim holds but for the duration. The duration of the closed event is
  \<^verbatim>\<open>int64(endTime.Sub(downtimeStart).Seconds())\<close>, and \<^verbatim>\<open>Seconds\<close> returns a \<^verbatim>\<open>float64\<close>.
  For a downtime of 16777216999999999 nanoseconds, that is 16777216 whole seconds and 999999999
  nanoseconds, the sum of the seconds and the fraction is rounded to 16777217, and the
  event reports 16777217 seconds, more than lie between its start and its end.
\<close>

theorem closed_duration_counterexample:
  "DowntimeEvents (calculateStats 16777286999999999
     [\<lparr>Timestamp = 10000000000, Results =
              [\<lparr>Host = ''a'', Success = True, Latency = 12, Error = '''', PingTimestamp = 10000000000\<rparr>]\<rparr>,
       \<lparr>Timestamp = 40000000000, Results =
              [\<lparr>Host = ''a'', Success = False, Latency = 5000, Error = ''timeout'', PingTimestamp = 40000000000\<rparr>]\<rparr>,
       \<lparr>Timestamp = 16777256999999999, Results =
              [\<lparr>Host = ''a'', Success = True, Latency = 12, Error = '''', PingTimestamp = 16777256999999999\<rparr>]\<rparr>]) =
   [\<lparr>StartTime = 40000000000, EndTime = Some 16777256999999999, Duration = 16777217, IsOngoing = False, FailedHosts = [''a'']\<rparr>] \<and>
   (16777256999999999 - 40000000000) div 1000000000 = (16777216 :: int)"
  by (simp add: run_eval seconds_eval round64_eval)

text \<open>
  C4, as amended. For a log of online rounds, then one or more offline rounds, then one
  online round, the result has exactly one downtime event. It starts at the timestamp
  of the first offline round, ends at the timestamp of the closing online round, is not
  ongoing, carries the failed hosts of the first offline round, and its duration is
  \<^verbatim>\<open>int64(end.Sub(start).Seconds())\<close>. When the end minus the start is at least \<open>0\<close> and
  less than \<open>2\<^sup>2\<^sup>4\<close> seconds (about 194 days), the duration is that difference in whole
  seconds; up to the range of a \<^verbatim>\<open>time.Duration\<close> (about 292 years) it is that number
  or one more.
\<close>

theorem closed_event:
  assumes "logs = ons @ off # offs @ [on]"
    and "\<forall>e \<in> set ons. internetOnline e"
    and "\<not> internetOnline off"
    and "\<forall>e \<in> set offs. \<not> internetOnline e"
    and "internetOnline on"
  shows "DowntimeEvents (calculateStats now logs) =
           [\<lparr>StartTime = Timestamp off, EndTime = Some (Timestamp on),
             Duration = durationSeconds (Timestamp on) (Timestamp off),
             IsOngoing = False, FailedHosts = failedHosts off\<rparr>] \<and>
         (0 \<le> Timestamp on - Timestamp off \<and>
          Timestamp on - Timestamp off < 16777216000000000 \<longrightarrow>
            durationSeconds (Timestamp on) (Timestamp off) =
              (Timestamp on - Timestamp off) div 1000000000) \<and>
         (0 \<le> Timestamp on - Timestamp off \<and> Timestamp on - Timestamp off \<le> maxDuration \<longrightarrow>
            (Timestamp on - Timestamp off) div 1000000000
              \<le> durationSeconds (Timestamp on) (Timestamp off) \<and>
            durationSeconds (Timestamp on) (Timestamp off)
              \<le> (Timestamp on - Timestamp off) div 1000000000 + 1)"
  using single_downtime_closed [OF assms, of now]
    durationSeconds_short [of "Timestamp on" "Timestamp off"]
    durationSeconds_bounds [of "Timestamp on" "Timestamp off"]
  by blast

theorem closed_event_witness:
  "DowntimeEvents (calculateStats 130000000000
     [\<lparr>Timestamp = 10000000000, Results =
              [\<lparr>Host = ''a'', Success = True, Latency = 12, Error = '''', PingTimestamp = 10000000000\<rparr>,
               \<lparr>Host = ''b'', Success = True, Latency = 12, Error = '''', PingTimestamp = 10000000000\<rparr>]\<rparr>,
       \<lparr>Timestamp = 40000000000, Results =
              [\<lparr>Host = ''a'', Success = False, Latency = 5000, Error = ''timeout'', PingTimestamp = 40000000000\<rparr>,
               \<lparr>Host = ''b'', Success = False, Latency = 5000, Error = ''timeout'', PingTimestamp = 40000000000\<rparr>]\<rparr>,
       \<lparr>Timestamp = 70000000000, Results =
              [\<lparr>Host = ''a'', Success = False, Latency = 5000, Error = ''timeout'', PingTimestamp = 70000000000\<rparr>,
               \<lparr>Host = ''c'', Success = False, Latency = 5000, Error = ''no route'', PingTimestamp = 70000000000\<rparr>]\<rparr>,
       \<lparr>Timestamp = 100000000000, Results =
              [\<lparr>Host = ''a'', Success = True, Latency = 12, Error = '''', PingTimestamp = 100000000000\<rparr>,
               \<lparr>Host = ''b'', Success = False, Latency = 5000, Error = ''timeout'', PingTimestamp = 100000000000\<rparr>]\<rparr>]) =
   [\<lparr>StartTime = 40000000000, EndTime = Some 100000000000, Duration = 60, IsOngoing = False, FailedHosts = [''a'', ''b'']\<rparr>]"
  using closed_event [of
     "[\<lparr>Timestamp = 10000000000, Results =
              [\<lparr>Host = ''a'', Success = True, Latency = 12, Error = '''', PingTimestamp = 10000000000\<rparr>,
               \<lparr>Host = ''b'', Success = True, Latency = 12, Error = '''', PingTimestamp = 10000000000\<rparr>]\<rparr>,
       \<lparr>Timestamp = 40000000000, Results =
              [\<lparr>Host = ''a'', Success = False, Latency = 5000, Error = ''timeout'', PingTimestamp = 40000000000\<rparr>,
               \<lparr>Host = ''b'', Success = False, Latency = 5000, Error = ''timeout'', PingTimestamp = 40000000000\<rparr>]\<rparr>,
       \<lparr>Timestamp = 70000000000, Results =
              [\<lparr>Host = ''a'', Success = False, Latency = 5000, Error = ''timeout'', PingTimestamp = 70000000000\<rparr>,
               \<lparr>Host = ''c'', Success = False, Latency = 5000, Error = ''no route'', PingTimestamp = 70000000000\<rparr>]\<rparr>,
       \<lparr>Timestamp = 100000000000, Results =
              [\<lparr>Host = ''a'', Success = True, Latency = 12, Error = '''', PingTimestamp = 100000000000\<rparr>,
               \<lparr>Host = ''b'', Success = False, Latency = 5000, Error = ''timeout'', PingTimestamp = 100000000000\<rparr>]\<rparr>]"
     "[\<lparr>Timestamp = 10000000000, Results =
              [\<lparr>Host = ''a'', Success = True, Latency = 12, Error = '''', PingTimestamp = 10000000000\<rparr>,
               \<lparr>Host = ''b'', Success = True, Latency = 12, Error = '''', PingTimestamp = 10000000000\<rparr>]\<rparr>]"
     "\<lparr>Timestamp = 40000000000, Results =
              [\<lparr>Host = ''a'', Success = False, Latency = 5000, Error = ''timeout'', PingTimestamp = 40000000000\<rparr>,
               \<lparr>Host = ''b'', Success = False, Latency = 5000, Error = ''timeout'', PingTimestamp = 40000000000\<rparr>]\<rparr>"
     "[\<lparr>Timestamp = 70000000000, Results =
              [\<lparr>Host = ''a'', Success = False, Latency = 5000, Error = ''timeout'', PingTimestamp = 70000000000\<rparr>,
               \<lparr>Host = ''c'', Success = False, Latency = 5000, Error = ''no route'', PingTimestamp = 70000000000\<rparr>]\<rparr>]"
     "\<lparr>Timestamp = 100000000000, Results =
              [\<lparr>Host = ''a'', Success = True, Latency = 12, Error = '''', PingTimestamp = 100000000000\<rparr>,
               \<lparr>Host = ''b'', Success = False, Latency = 5000, Error = ''timeout'', PingTimestamp = 100000000000\<rparr>]\<rparr>" 130000000000]
  by (simp add: internetOnline_iff failedHosts_eq duration_eval)

text \<open>
  C5. For a log whose timestamps are ascending, the returned events are ordered by
  descending start time; an ongoing event can only be the first element; and
  \<open>RecentDowntime\<close> is the first element of the list, or absent when the list is empty.
\<close>

theorem events_most_recent_first:
  assumes "sorted (map Timestamp logs)"
  shows "sorted_wrt (\<lambda>t u. u \<le> t)
           (map StartTime (DowntimeEvents (calculateStats now logs))) \<and>
         (\<forall>i < length (DowntimeEvents (calculateStats now logs)).
            IsOngoing (DowntimeEvents (calculateStats now logs) ! i) \<longrightarrow> i = 0) \<and>
         RecentDowntime (calculateStats now logs) =
           (case DowntimeEvents (calculateStats now logs) of
              [] \<Rightarrow> None
            | ev # _ \<Rightarrow> Some ev)"
proof -
  let ?s = "runLoop logs"
  have "sorted (map StartTime (downtimeEvents ?s)) \<and>
         (statusInitialized ?s \<and> \<not> lastStatus ?s \<longrightarrow>
            (\<forall>ev \<in> set (downtimeEvents ?s). StartTime ev \<le> downtimeStart ?s))"
    unfolding runLoop_def
    by (rule fold_entryStep_sorted [OF assms]) (simp_all add: initState_fields)
  then have "sorted (map StartTime (downtimeEvents (handleOngoing now ?s)))"
    by (intro handleOngoing_sorted) simp_all
  then have "sorted (rev (map StartTime (DowntimeEvents (calculateStats now logs))))"
    by (simp add: DowntimeEvents_eq rev_map)
  then have order: "sorted_wrt (\<lambda>t u. u \<le> t)
      (map StartTime (DowntimeEvents (calculateStats now logs)))"
    by (simp only: sorted_wrt_rev)
  have first: "i = 0"
    if "i < length (DowntimeEvents (calculateStats now logs))"
      and "IsOngoing (DowntimeEvents (calculateStats now logs) ! i)" for i
  proof (rule ccontr)
    assume "i \<noteq> 0"
    then obtain k where k: "i = Suc k" by (cases i) auto
    from handleOngoing_events [of now ?s] show False
    proof
      assume "downtimeEvents (handleOngoing now ?s) = downtimeEvents ?s"
      then have "DowntimeEvents (calculateStats now logs) ! i \<in> set (downtimeEvents ?s)"
        using that(1) by (metis DowntimeEvents_eq nth_mem set_rev)
      with runLoop_closed that(2) show False by blast
    next
      assume "\<exists>ev. IsOngoing ev \<and>
         downtimeEvents (handleOngoing now ?s) = downtimeEvents ?s @ [ev]"
      then obtain ev where ev: "DowntimeEvents (calculateStats now logs) = ev # rev (downtimeEvents ?s)"
        by (auto simp: DowntimeEvents_eq)
      then have "DowntimeEvents (calculateStats now logs) ! i = rev (downtimeEvents ?s) ! k"
        and "k < length (rev (downtimeEvents ?s))"
        using that(1) k by simp_all
      then have "DowntimeEvents (calculateStats now logs) ! i \<in> set (downtimeEvents ?s)"
        by (metis nth_mem set_rev)
      with runLoop_closed that(2) show False by blast
    qed
  qed
  from order first show ?thesis
    by (simp add: RecentDowntime_eq)
qed

theorem events_most_recent_first_witness:
  "sorted_wrt (\<lambda>t u. u \<le> t) (map StartTime (DowntimeEvents (calculateStats 130000000000
     [\<lparr>Timestamp = 10000000000, Results =
              [\<lparr>Host = ''a'', Success = False, Latency = 5000, Error = ''timeout'', PingTimestamp = 10000000000\<rparr>]\<rparr>,
       \<lparr>Timestamp = 40000000000, Results =
              [\<lparr>Host = ''a'', Success = True, Latency = 12, Error = '''', PingTimestamp = 40000000000\<rparr>]\<rparr>,
       \<lparr>Timestamp = 70000000000, Results =
              [\<lparr>Host = ''a'', Success = False, Latency = 5000, Error = ''timeout'', PingTimestamp = 70000000000\<rparr>]\<rparr>]))) \<and>
   DowntimeEvents (calculateStats 130000000000
     [\<lparr>Timestamp = 10000000000, Results =
              [\<lparr>Host = ''a'', Success = False, Latency = 5000, Error = ''timeout'', PingTimestamp = 10000000000\<rparr>]\<rparr>,
       \<lparr>Timestamp = 40000000000, Results =
              [\<lparr>Host = ''a'', Success = True, Latency = 12, Error = '''', PingTimestamp = 40000000000\<rparr>]\<rparr>,
       \<lparr>Timestamp = 70000000000, Results =
              [\<lparr>Host = ''a'', Success = False, Latency = 5000, Error = ''timeout'', PingTimestamp = 70000000000\<rparr>]\<rparr>]) =
   [\<lparr>StartTime = 70000000000, EndTime = None, Duration = 60, IsOngoing = True, FailedHosts = [''a'']\<rparr>,
    \<lparr>StartTime = 10000000000, EndTime = Some 40000000000, Duration = 30, IsOngoing = False, FailedHosts = [''a'']\<rparr>] \<and>
   RecentDowntime (calculateStats 130000000000
     [\<lparr>Timestamp = 10000000000, Results =
              [\<lparr>Host = ''a'', Success = False, Latency = 5000, Error = ''timeout'', PingTimestamp = 10000000000\<rparr>]\<rparr>,
       \<lparr>Timestamp = 40000000000, Results =
              [\<lparr>Host = ''a'', Success = True, Latency = 12, Error = '''', PingTimestamp = 40000000000\<rparr>]\<rparr>,
       \<lparr>Timestamp = 70000000000, Results =
              [\<lparr>Host = ''a'', Success = False, Latency = 5000, Error = ''timeout'', PingTimestamp = 70000000000\<rparr>]\<rparr>]) =
   Some \<lparr>StartTime = 70000000000, EndTime = None, Duration = 60, IsOngoing = True, FailedHosts = [''a'']\<rparr>"
proof -
  have "sorted (map Timestamp
     [\<lparr>Timestamp = 10000000000, Results =
              [\<lparr>Host = ''a'', Success = False, Latency = 5000, Error = ''timeout'', PingTimestamp = 10000000000\<rparr>]\<rparr>,
       \<lparr>Timestamp = 40000000000, Results =
              [\<lparr>Host = ''a'', Success = True, Latency = 12, Error = '''', PingTimestamp = 40000000000\<rparr>]\<rparr>,
       \<lparr>Timestamp = 70000000000, Results =
              [\<lparr>Host = ''a'', Success = False, Latency = 5000, Error = ''timeout'', PingTimestamp = 70000000000\<rparr>]\<rparr>])"
    by simp
  from events_most_recent_first [OF this, of 130000000000] show ?thesis
    by (simp add: run_eval duration_eval)
qed

text \<open>
  C6. On an empty sequence of log entries the summary has \<open>TotalChecks = 0\<close>,
  \<open>UptimePercentage = 0\<close>, \<open>CurrentStatus = ''online''\<close>, an empty list of downtime events
  and no recent downtime, whatever the instant of the query is.
\<close>

theorem calculateStats_empty:
  "TotalChecks (calculateStats now []) = 0 \<and>
   UptimePercentage (calculateStats now []) = 0 \<and>
   CurrentStatus (calculateStats now []) = ''online'' \<and>
   DowntimeEvents (calculateStats now []) = [] \<and>
   RecentDowntime (calculateStats now []) = None"
  by (simp add: calculateStats_def handleOngoing_empty reverseLoop_nil initState_fields)

theorem calculateStats_empty_witness:
  "TotalChecks (calculateStats 130000000000 []) = 0 \<and>
   UptimePercentage (calculateStats 130000000000 []) = 0 \<and>
   CurrentStatus (calculateStats 130000000000 []) = ''online'' \<and>
   DowntimeEvents (calculateStats 130000000000 []) = [] \<and>
   RecentDowntime (calculateStats 130000000000 []) = None"
  by (rule calculateStats_empty)

text \<open>
  C7. \<open>UptimePercentage\<close> is not in every case the exact quotient times \<open>100\<close>: the
  division and the multiplication are \<^verbatim>\<open>float64\<close> operations, each rounded to the nearest
  binary64 value. For 7 online rounds of 25 the quotient is rounded up to
  \<open>5044031582654956 / 2\<^sup>5\<^sup>4\<close>, and its product with \<open>100\<close> to \<open>28 + 2\<^sup>-\<^sup>4\<^sup>8\<close>, which Go
  prints as \<^verbatim>\<open>28.000000000000004\<close>, where \<open>7 / 25 * 100\<close> is \<open>28\<close>.
\<close>

theorem uptime_rounding_counterexample:
  "UptimePercentage (calculateStats 130000000000
     (replicate 7 \<lparr>Timestamp = 10000000000, Results =
                   [\<lparr>Host = ''a'', Success = True, Latency = 12, Error = '''', PingTimestamp = 10000000000\<rparr>]\<rparr> @
      replicate 18 \<lparr>Timestamp = 10000000000, Results =
                   [\<lparr>Host = ''a'', Success = False, Latency = 5000, Error = ''timeout'', PingTimestamp = 10000000000\<rparr>]\<rparr>)) = 28 + 1 / 2 ^ 48 \<and>
   real_of_int (OnlineChecks (calculateStats 130000000000
     (replicate 7 \<lparr>Timestamp = 10000000000, Results =
                   [\<lparr>Host = ''a'', Success = True, Latency = 12, Error = '''', PingTimestamp = 10000000000\<rparr>]\<rparr> @
      replicate 18 \<lparr>Timestamp = 10000000000, Results =
                   [\<lparr>Host = ''a'', Success = False, Latency = 5000, Error = ''timeout'', PingTimestamp = 10000000000\<rparr>]\<rparr>))) /
   real_of_int (TotalChecks (calculateStats 130000000000
     (replicate 7 \<lparr>Timestamp = 10000000000, Results =
                   [\<lparr>Host = ''a'', Success = True, Latency = 12, Error = '''', PingTimestamp = 10000000000\<rparr>]\<rparr> @
      replicate 18 \<lparr>Timestamp = 10000000000, Results =
                   [\<lparr>Host = ''a'', Success = False, Latency = 5000, Error = ''timeout'', PingTimestamp = 10000000000\<rparr>]\<rparr>))) * 100 = 28"
  by (simp add: UptimePercentage_eq OnlineChecks_eq TotalChecks_eq internetOnline_iff
      round64_eval)

text \<open>
  C7, as amended. \<open>UptimePercentage\<close> is \<open>0\<close> when \<open>TotalChecks\<close> is \<open>0\<close>, and otherwise
  \<^verbatim>\<open>float64(onlineChecks) / float64(totalChecks) * 100\<close> in \<^verbatim>\<open>float64\<close>: the two
  conversions, the division and the multiplication each rounded to the nearest binary64
  value. For every non-empty log it lies between \<open>0\<close> and \<open>100\<close>. For a log of at most
  \<open>2\<^sup>5\<^sup>3\<close> rounds it differs from the exact \<open>OnlineChecks / TotalChecks * 100\<close> by at
  most \<open>2\<^sup>-\<^sup>4\<^sup>5\<close>.
\<close>

theorem uptime_percentage:
  "UptimePercentage (calculateStats now logs) =
     (if TotalChecks (calculateStats now logs) > 0 then
        round64 (round64 (float64 (OnlineChecks (calculateStats now logs)) /
          float64 (TotalChecks (calculateStats now logs))) * 100)
      else 0) \<and>
   (logs \<noteq> [] \<longrightarrow>
      0 \<le> UptimePercentage (calculateStats now logs) \<and>
      UptimePercentage (calculateStats now logs) \<le> 100) \<and>
   (int (length logs) \<le> 2 ^ 53 \<longrightarrow>
      \<bar>UptimePercentage (calculateStats now logs) -
         real_of_int (OnlineChecks (calculateStats now logs)) /
           real_of_int (TotalChecks (calculateStats now logs)) * 100\<bar> \<le> 1 / 2 ^ 45)"
proof -
  let ?on = "OnlineChecks (calculateStats now logs)"
  let ?tot = "TotalChecks (calculateStats now logs)"
  have on: "0 \<le> ?on" "?on \<le> ?tot"
    by (simp_all add: OnlineChecks_eq TotalChecks_eq)
  have tot: "?tot = int (length logs)"
    by (rule TotalChecks_eq)
  show ?thesis
  proof (cases "logs = []")
    case True
    then show ?thesis
      by (simp add: UptimePercentage_eq TotalChecks_eq OnlineChecks_eq)
  next
    case False
    then have pos: "0 < ?tot"
      by (simp add: tot)
    then have eq: "UptimePercentage (calculateStats now logs) =
        round64 (round64 (float64 ?on / float64 ?tot) * 100)"
      by (simp add: UptimePercentage_eq)
    note b = uptime_bounds [OF on pos]
    have "\<bar>round64 (round64 (float64 ?on / float64 ?tot) * 100) -
        real_of_int ?on / real_of_int ?tot * 100\<bar> \<le> 1 / 2 ^ 45"
      if "int (length logs) \<le> 2 ^ 53"
      using that by (intro uptime_error [OF on pos]) (simp add: tot)
    with b eq pos show ?thesis
      by simp
  qed
qed

theorem uptime_percentage_witness:
  "UptimePercentage (calculateStats 130000000000
     [\<lparr>Timestamp = 10000000000, Results =
              [\<lparr>Host = ''a'', Success = True, Latency = 12, Error = '''', PingTimestamp = 10000000000\<rparr>,
               \<lparr>Host = ''b'', Success = True, Latency = 12, Error = '''', PingTimestamp = 10000000000\<rparr>]\<rparr>,
       \<lparr>Timestamp = 40000000000, Results =
              [\<lparr>Host = ''a'', Success = False, Latency = 5000, Error = ''timeout'', PingTimestamp = 40000000000\<rparr>,
               \<lparr>Host = ''b'', Success = False, Latency = 5000, Error = ''timeout'', PingTimestamp = 40000000000\<rparr>]\<rparr>,
       \<lparr>Timestamp = 70000000000, Results =
              [\<lparr>Host = ''a'', Success = False, Latency = 5000, Error = ''timeout'', PingTimestamp = 70000000000\<rparr>,
               \<lparr>Host = ''c'', Success = False, Latency = 5000, Error = ''no route'', PingTimestamp = 70000000000\<rparr>]\<rparr>,
       \<lparr>Timestamp = 100000000000, Results =
              [\<lparr>Host = ''a'', Success = True, Latency = 12, Error = '''', PingTimestamp = 100000000000\<rparr>,
               \<lparr>Host = ''b'', Success = False, Latency = 5000, Error = ''timeout'', PingTimestamp = 100000000000\<rparr>]\<rparr>]) = 50"
  using uptime_percentage [of 130000000000
     "[\<lparr>Timestamp = 10000000000, Results =
              [\<lparr>Host = ''a'', Success = True, Latency = 12, Error = '''', PingTimestamp = 10000000000\<rparr>,
               \<lparr>Host = ''b'', Success = True, Latency = 12, Error = '''', PingTimestamp = 10000000000\<rparr>]\<rparr>,
       \<lparr>Timestamp = 40000000000, Results =
              [\<lparr>Host = ''a'', Success = False, Latency = 5000, Error = ''timeout'', PingTimestamp = 40000000000\<rparr>,
               \<lparr>Host = ''b'', Success = False, Latency = 5000, Error = ''timeout'', PingTimestamp = 40000000000\<rparr>]\<rparr>,
       \<lparr>Timestamp = 70000000000, Results =
              [\<lparr>Host = ''a'', Success = False, Latency = 5000, Error = ''timeout'', PingTimestamp = 70000000000\<rparr>,
               \<lparr>Host = ''c'', Success = False, Latency = 5000, Error = ''no route'', PingTimestamp = 70000000000\<rparr>]\<rparr>,
       \<lparr>Timestamp = 100000000000, Results =
              [\<lparr>Host = ''a'', Success = True, Latency = 12, Error = '''', PingTimestamp = 100000000000\<rparr>,
               \<lparr>Host = ''b'', Success = False, Latency = 5000, Error = ''timeout'', PingTimestamp = 100000000000\<rparr>]\<rparr>]"]
  by (simp add: TotalChecks_eq OnlineChecks_eq internetOnline_iff round64_eval)

text \<open>
  C8. Take a state with no open downtime interval and a run of offline rounds. After the
  first round of the run and after each later one, the snapshot
  \<open>downtimeFailedHosts\<close> is the list of failed hosts of the first round, whatever hosts
  fail in the later rounds. The event emitted for the interval, whether an online round
  closes it or the log ends and it is reported as ongoing, carries that list.
\<close>

theorem failed_hosts_snapshot:
  assumes "\<not> statusInitialized s \<or> lastStatus s"
    and "\<not> internetOnline off"
    and "\<forall>e \<in> set offs. \<not> internetOnline e"
  shows "(\<forall>k \<le> length offs.
            downtimeFailedHosts (fold entryStep (off # take k offs) s) = failedHosts off) \<and>
         (internetOnline on \<longrightarrow>
            downtimeEvents (fold entryStep (off # offs @ [on]) s) =
              downtimeEvents s @
                [\<lparr>StartTime = Timestamp off, EndTime = Some (Timestamp on),
                  Duration = durationSeconds (Timestamp on) (Timestamp off),
                  IsOngoing = False, FailedHosts = failedHosts off\<rparr>]) \<and>
         downtimeEvents (handleOngoing now (fold entryStep (off # offs) s)) =
           downtimeEvents s @
             [\<lparr>StartTime = Timestamp off, EndTime = None,
               Duration = durationSeconds now (Timestamp off),
               IsOngoing = True, FailedHosts = failedHosts off\<rparr>]"
proof -
  let ?t = "fold entryStep (off # offs) s"
  note t = fold_opening_run [OF assms]
  have prefix: "downtimeFailedHosts (fold entryStep (off # take k offs) s) = failedHosts off"
    for k
  proof -
    have "\<forall>e \<in> set (take k offs). \<not> internetOnline e"
      using assms(3) by (auto dest: in_set_takeD)
    from fold_opening_run [OF assms(1,2) this] show ?thesis by simp
  qed
  have closing: "downtimeEvents (fold entryStep (off # offs @ [on]) s) =
      downtimeEvents s @
        [\<lparr>StartTime = Timestamp off, EndTime = Some (Timestamp on),
          Duration = durationSeconds (Timestamp on) (Timestamp off),
          IsOngoing = False, FailedHosts = failedHosts off\<rparr>]"
    if "internetOnline on"
  proof -
    have "fold entryStep (off # offs @ [on]) s = entryStep on ?t"
      by simp
    then show ?thesis
      using t by (simp only: entryStep_online [OF that]) simp
  qed
  have "lastCheckTime ?t \<noteq> None"
    using fold_entryStep_last [of "off # offs" s] by simp
  with t have "downtimeEvents (handleOngoing now ?t) =
      downtimeEvents s @
        [\<lparr>StartTime = Timestamp off, EndTime = None,
          Duration = durationSeconds now (Timestamp off),
          IsOngoing = True, FailedHosts = failedHosts off\<rparr>]"
    by (simp add: handleOngoing_offline)
  with prefix closing show ?thesis
    by blast
qed

theorem failed_hosts_snapshot_witness:
  "downtimeFailedHosts (fold entryStep
     (\<lparr>Timestamp = 40000000000, Results =
              [\<lparr>Host = ''a'', Success = False, Latency = 5000, Error = ''timeout'', PingTimestamp = 40000000000\<rparr>,
               \<lparr>Host = ''b'', Success = False, Latency = 5000, Error = ''timeout'', PingTimestamp = 40000000000\<rparr>]\<rparr> #
      take 1 [\<lparr>Timestamp = 70000000000, Results =
              [\<lparr>Host = ''a'', Success = False, Latency = 5000, Error = ''timeout'', PingTimestamp = 70000000000\<rparr>,
               \<lparr>Host = ''c'', Success = False, Latency = 5000, Error = ''no route'', PingTimestamp = 70000000000\<rparr>]\<rparr>]) initState) = [''a'', ''b''] \<and>
   downtimeEvents (fold entryStep
     (\<lparr>Timestamp = 40000000000, Results =
              [\<lparr>Host = ''a'', Success = False, Latency = 5000, Error = ''timeout'', PingTimestamp = 40000000000\<rparr>,
               \<lparr>Host = ''b'', Success = False, Latency = 5000, Error = ''timeout'', PingTimestamp = 40000000000\<rparr>]\<rparr> #
      [\<lparr>Timestamp = 70000000000, Results =
              [\<lparr>Host = ''a'', Success = False, Latency = 5000, Error = ''timeout'', PingTimestamp = 70000000000\<rparr>,
               \<lparr>Host = ''c'', Success = False, Latency = 5000, Error = ''no route'', PingTimestamp = 70000000000\<rparr>]\<rparr>] @
      [\<lparr>Timestamp = 100000000000, Results =
              [\<lparr>Host = ''a'', Success = True, Latency = 12, Error = '''', PingTimestamp = 100000000000\<rparr>,
               \<lparr>Host = ''b'', Success = False, Latency = 5000, Error = ''timeout'', PingTimestamp = 100000000000\<rparr>]\<rparr>]) initState) =
   [\<lparr>StartTime = 40000000000, EndTime = Some 100000000000, Duration = 60, IsOngoing = False, FailedHosts = [''a'', ''b'']\<rparr>] \<and>
   downtimeEvents (handleOngoing 130000000000 (fold entryStep
     (\<lparr>Timestamp = 40000000000, Results =
              [\<lparr>Host = ''a'', Success = False, Latency = 5000, Error = ''timeout'', PingTimestamp = 40000000000\<rparr>,
               \<lparr>Host = ''b'', Success = False, Latency = 5000, Error = ''timeout'', PingTimestamp = 40000000000\<rparr>]\<rparr> #
      [\<lparr>Timestamp = 70000000000, Results =
              [\<lparr>Host = ''a'', Success = False, Latency = 5000, Error = ''timeout'', PingTimestamp = 70000000000\<rparr>,
               \<lparr>Host = ''c'', Success = False, Latency = 5000, Error = ''no route'', PingTimestamp = 70000000000\<rparr>]\<rparr>]) initState)) =
   [\<lparr>StartTime = 40000000000, EndTime = None, Duration = 90, IsOngoing = True, FailedHosts = [''a'', ''b'']\<rparr>]"
proof -
  let ?off = "\<lparr>Timestamp = 40000000000, Results =
              [\<lparr>Host = ''a'', Success = False, Latency = 5000, Error = ''timeout'', PingTimestamp = 40000000000\<rparr>,
               \<lparr>Host = ''b'', Success = False, Latency = 5000, Error = ''timeout'', PingTimestamp = 40000000000\<rparr>]\<rparr>"
  let ?later = "\<lparr>Timestamp = 70000000000, Results =
              [\<lparr>Host = ''a'', Success = False, Latency = 5000, Error = ''timeout'', PingTimestamp = 70000000000\<rparr>,
               \<lparr>Host = ''c'', Success = False, Latency = 5000, Error = ''no route'', PingTimestamp = 70000000000\<rparr>]\<rparr>"
  let ?on = "\<lparr>Timestamp = 100000000000, Results =
              [\<lparr>Host = ''a'', Success = True, Latency = 12, Error = '''', PingTimestamp = 100000000000\<rparr>,
               \<lparr>Host = ''b'', Success = False, Latency = 5000, Error = ''timeout'', PingTimestamp = 100000000000\<rparr>]\<rparr>"
  have closed: "\<not> statusInitialized initState \<or> lastStatus initState"
    by (simp add: initState_fields)
  have off: "\<not> internetOnline ?off"
    by (simp add: internetOnline_iff)
  have later: "\<forall>e \<in> set [?later]. \<not> internetOnline e"
    by (simp add: internetOnline_iff)
  have on: "internetOnline ?on"
    by (simp add: internetOnline_iff)
  note run = failed_hosts_snapshot [OF closed off later, of ?on 130000000000]
  from run [THEN conjunct1, THEN spec, of 1]
  have "downtimeFailedHosts (fold entryStep (?off # take 1 [?later]) initState) =
      failedHosts ?off"
    by simp
  moreover from run [THEN conjunct2, THEN conjunct1] on
  have "downtimeEvents (fold entryStep (?off # [?later] @ [?on]) initState) =
      downtimeEvents initState @
        [\<lparr>StartTime = Timestamp ?off, EndTime = Some (Timestamp ?on),
          Duration = durationSeconds (Timestamp ?on) (Timestamp ?off),
          IsOngoing = False, FailedHosts = failedHosts ?off\<rparr>]"
    by simp
  moreover note run [THEN conjunct2, THEN conjunct2]
  ultimately show ?thesis
    by (simp add: failedHosts_eq duration_eval initState_fields)
qed

text \<open>
  C9. For every log in which every round has at least one result, the counters satisfy
  \<open>OnlineChecks + OfflineChecks = TotalChecks\<close>. (By \<open>checks_partition\<close> the equation
  holds for every log.)
\<close>

theorem counters_add_up:
  assumes "\<forall>e \<in> set logs. Results e \<noteq> []"
  shows "OnlineChecks (calculateStats now logs) + OfflineChecks (calculateStats now logs) =
         TotalChecks (calculateStats now logs)"
  by (rule checks_partition)

theorem counters_add_up_witness:
  "OnlineChecks (calculateStats 130000000000
     [\<lparr>Timestamp = 10000000000, Results =
              [\<lparr>Host = ''a'', Success = True, Latency = 12, Error = '''', PingTimestamp = 10000000000\<rparr>,
               \<lparr>Host = ''b'', Success = True, Latency = 12, Error = '''', PingTimestamp = 10000000000\<rparr>]\<rparr>,
       \<lparr>Timestamp = 40000000000, Results =
              [\<lparr>Host = ''a'', Success = False, Latency = 5000, Error = ''timeout'', PingTimestamp = 40000000000\<rparr>,
               \<lparr>Host = ''b'', Success = False, Latency = 5000, Error = ''timeout'', PingTimestamp = 40000000000\<rparr>]\<rparr>,
       \<lparr>Timestamp = 70000000000, Results =
              [\<lparr>Host = ''a'', Success = False, Latency = 5000, Error = ''timeout'', PingTimestamp = 70000000000\<rparr>,
               \<lparr>Host = ''c'', Success = False, Latency = 5000, Error = ''no route'', PingTimestamp = 70000000000\<rparr>]\<rparr>,
       \<lparr>Timestamp = 100000000000, Results =
              [\<lparr>Host = ''a'', Success = True, Latency = 12, Error = '''', PingTimestamp = 100000000000\<rparr>,
               \<lparr>Host = ''b'', Success = False, Latency = 5000, Error = ''timeout'', PingTimestamp = 100000000000\<rparr>]\<rparr>]) +
   OfflineChecks (calculateStats 130000000000
     [\<lparr>Timestamp = 10000000000, Results =
              [\<lparr>Host = ''a'', Success = True, Latency = 12, Error = '''', PingTimestamp = 10000000000\<rparr>,
               \<lparr>Host = ''b'', Success = True, Latency = 12, Error = '''', PingTimestamp = 10000000000\<rparr>]\<rparr>,
       \<lparr>Timestamp = 40000000000, Results =
              [\<lparr>Host = ''a'', Success = False, Latency = 5000, Error = ''timeout'', PingTimestamp = 40000000000\<rparr>,
               \<lparr>Host = ''b'', Success = False, Latency = 5000, Error = ''timeout'', PingTimestamp = 40000000000\<rparr>]\<rparr>,
       \<lparr>Timestamp = 70000000000, Results =
              [\<lparr>Host = ''a'', Success = False, Latency = 5000, Error = ''timeout'', PingTimestamp = 70000000000\<rparr>,
               \<lparr>Host = ''c'', Success = False, Latency = 5000, Error = ''no route'', PingTimestamp = 70000000000\<rparr>]\<rparr>,
       \<lparr>Timestamp = 100000000000, Results =
              [\<lparr>Host = ''a'', Success = True, Latency = 12, Error = '''', PingTimestamp = 100000000000\<rparr>,
               \<lparr>Host = ''b'', Success = False, Latency = 5000, Error = ''timeout'', PingTimestamp = 100000000000\<rparr>]\<rparr>]) =
   TotalChecks (calculateStats 130000000000
     [\<lparr>Timestamp = 10000000000, Results =
              [\<lparr>Host = ''a'', Success = True, Latency = 12, Error = '''', PingTimestamp = 10000000000\<rparr>,
               \<lparr>Host = ''b'', Success = True, Latency = 12, Error = '''', PingTimestamp = 10000000000\<rparr>]\<rparr>,
       \<lparr>Timestamp = 40000000000, Results =
              [\<lparr>Host = ''a'', Success = False, Latency = 5000, Error = ''timeout'', PingTimestamp = 40000000000\<rparr>,
               \<lparr>Host = ''b'', Success = False, Latency = 5000, Error = ''timeout'', PingTimestamp = 40000000000\<rparr>]\<rparr>,
       \<lparr>Timestamp = 70000000000, Results =
              [\<lparr>Host = ''a'', Success = False, Latency = 5000, Error = ''timeout'', PingTimestamp = 70000000000\<rparr>,
               \<lparr>Host = ''c'', Success = False, Latency = 5000, Error = ''no route'', PingTimestamp = 70000000000\<rparr>]\<rparr>,
       \<lparr>Timestamp = 100000000000, Results =
              [\<lparr>Host = ''a'', Success = True, Latency = 12, Error = '''', PingTimestamp = 100000000000\<rparr>,
               \<lparr>Host = ''b'', Success = False, Latency = 5000, Error = ''timeout'', PingTimestamp = 100000000000\<rparr>]\<rparr>])"
  by (rule counters_add_up) simp

text \<open>
  C10. Two logs of the same length whose entries agree, position by position, on the
  timestamp and whose results agree, position by position, on \<open>Host\<close> and \<open>Success\<close> give
  the same \<open>Stats\<close> at the same instant \<open>now\<close>. In particular two logs that differ only
  in the fields \<open>Latency\<close> and \<open>Error\<close> of their results give the same \<open>Stats\<close>.
\<close>

theorem latency_error_irrelevant:
  assumes "list_all2 (\<lambda>e e'. Timestamp e = Timestamp e' \<and>
             list_all2 (\<lambda>r r'. Host r = Host r' \<and> Success r = Success r')
               (Results e) (Results e')) logs logs'"
  shows "calculateStats now logs = calculateStats now logs'"
proof -
  have "runLoop logs = runLoop logs'"
    unfolding runLoop_def using assms by (rule fold_entryStep_cong)
  moreover have "length logs = length logs'"
    using assms by (rule list_all2_lengthD)
  ultimately show ?thesis
    by (simp add: calculateStats_def)
qed

theorem latency_error_irrelevant_witness:
  "calculateStats 130000000000
     [\<lparr>Timestamp = 10000000000, Results =
              [\<lparr>Host = ''a'', Success = True, Latency = 12, Error = '''', PingTimestamp = 10000000000\<rparr>,
               \<lparr>Host = ''b'', Success = False, Latency = 5000, Error = ''timeout'', PingTimestamp = 10000000000\<rparr>]\<rparr>] =
   calculateStats 130000000000
     [\<lparr>Timestamp = 10000000000, Results =
              [\<lparr>Host = ''a'', Success = True, Latency = 480, Error = ''slow'', PingTimestamp = 10000000000\<rparr>,
               \<lparr>Host = ''b'', Success = False, Latency = 31, Error = ''DNS lookup failed'', PingTimestamp = 10000000000\<rparr>]\<rparr>]"
  by (rule latency_error_irrelevant) simp

end
